theory Spec2Isabelle
  imports Main "HOL-Library.Char_ord" "HOL-Library.List_Lexorder"
begin

section \<open>The resource-locking core of the test runner\<close>

text \<open>
  A shallow embedding of the locking module of the runner: \<^verbatim>\<open>annotateTaskResources\<close>,
  \<^verbatim>\<open>init\<close>, \<^verbatim>\<open>shutdown\<close>, \<^verbatim>\<open>acquire\<close>, \<^verbatim>\<open>acquireEventually\<close>, \<^verbatim>\<open>release\<close> and
  \<^verbatim>\<open>listConflicts\<close>. The module mutates \<^verbatim>\<open>state.locks\<close> (a JavaScript \<^verbatim>\<open>Set\<close>), calls the
  external lock client and writes log lines; the model passes a record of all three through
  every operation and returns it updated. A JavaScript exception is the value \<open>Threw\<close>.
\<close>

subsection \<open>Data\<close>

text \<open>The options the module reads from \<^verbatim>\<open>config\<close>. \<^verbatim>\<open>log_file\<close> is a path or absent.\<close>

record config =
  no_locking :: bool
  no_external_locking :: bool
  locking_verbose :: bool
  log_file :: "string option"

text \<open>A task: the module reads \<^verbatim>\<open>task.id\<close> and \<^verbatim>\<open>task.resources\<close> only.\<close>

record task =
  task_id :: string
  resources :: "string list"

text \<open>The typedef \<^verbatim>\<open>Lock\<close>: \<^verbatim>\<open>{resource: string, expireIn: number, client?: string}\<close>.\<close>

record lock =
  resource :: string
  expireIn :: int
  client :: "string option"

text \<open>
  The external lock client (\<^verbatim>\<open>external_locking\<close>) is not part of the module. Its calls are
  recorded, and what it answers is a parameter: a function from the calls made so far, the
  last one being the call answered, to the answer. \<^verbatim>\<open>externalAcquire\<close> and
  \<^verbatim>\<open>externalRelease\<close> resolve to \<^verbatim>\<open>true\<close>, resolve to a \<^verbatim>\<open>Lock\<close> describing the conflict,
  or reject with an error, of which the module reads the \<^verbatim>\<open>stack\<close>.
\<close>

datatype ext_call =
    ExtInit
  | ExtShutdown
  | ExternalAcquire "string list" nat
  | ExternalRelease "string list"

datatype ext_reply = Granted | Denied lock | Raised string

type_synonym external_locking = "ext_call list \<Rightarrow> ext_reply"

text \<open>The calls into the \<^verbatim>\<open>output\<close> module, with the message each one is given.\<close>

datatype output_call =
    LogVerbose string
  | Log string
  | Color string string

text \<open>
  The runner state together with the effects of the module that can be observed.
  \<^verbatim>\<open>state.locks\<close> is a \<^verbatim>\<open>Set\<close> of strings: a list without repetition, in insertion order.
  \<^verbatim>\<open>locks_length\<close> is the property \<^verbatim>\<open>length\<close> that \<^verbatim>\<open>shutdown\<close> writes on the \<^verbatim>\<open>Set\<close> object;
  a \<^verbatim>\<open>Set\<close> does not read it.
\<close>

record runner_state =
  locks :: "string list"
  locks_length :: "nat option"
  ext_calls :: "ext_call list"
  output_calls :: "output_call list"

datatype error = AssertionError string

datatype 'a outcome = Returned 'a | Threw error

text \<open>What a JavaScript function returns where it returns \<^verbatim>\<open>true\<close> on one path and nothing on another.\<close>

datatype js_value = JsTrue | JsUndefined

subsection \<open>The JavaScript library functions the module uses\<close>

text \<open>\<^verbatim>\<open>Set.prototype.has\<close>, \<^verbatim>\<open>add\<close> and \<^verbatim>\<open>delete\<close>.\<close>

definition set_has :: "string list \<Rightarrow> string \<Rightarrow> bool" where
  "set_has ls r = (r \<in> set ls)"

definition set_add :: "string \<Rightarrow> string list \<Rightarrow> string list" where
  "set_add r ls = (if r \<in> set ls then ls else ls @ [r])"

definition set_delete :: "string \<Rightarrow> string list \<Rightarrow> string list" where
  "set_delete r ls = removeAll r ls"

text \<open>
  \<^verbatim>\<open>Array.prototype.join\<close> on an array of strings. \<^verbatim>\<open>Array.prototype.sort\<close> without a
  comparison function orders strings by their code units; it is \<open>sort\<close> on \<open>string\<close>, which
  compares character codes from the left.
\<close>

fun join :: "string \<Rightarrow> string list \<Rightarrow> string" where
  "join sep [] = []"
| "join sep [x] = x"
| "join sep (x # y # ys) = x @ sep @ join sep (y # ys)"

text \<open>A number in a template string, for an integer: decimal digits, with a sign if negative.\<close>

fun nat_digits :: "nat \<Rightarrow> string" where
  "nat_digits n =
     (if n < 10 then [char_of (48 + n)]
      else nat_digits (n div 10) @ [char_of (48 + n mod 10)])"

declare nat_digits.simps [simp del]

definition number_string :: "int \<Rightarrow> string" where
  "number_string i = (if i < 0 then CHR ''-'' # nat_digits (nat (- i)) else nat_digits (nat i))"

text \<open>An optional string in a template string: \<^verbatim>\<open>undefined\<close> when absent.\<close>

definition optional_string :: "string option \<Rightarrow> string" where
  "optional_string s = (case s of None \<Rightarrow> ''undefined'' | Some x \<Rightarrow> x)"

text \<open>
  \<^verbatim>\<open>JSON.stringify\<close> on a string: quotes around it, a backslash before a quote and a
  backslash, the short escapes for backspace, tab, newline, form feed and carriage return,
  and \<^verbatim>\<open>\u00XX\<close> for the other control characters.
\<close>

definition hex_digit :: "nat \<Rightarrow> char" where
  "hex_digit n = (if n < 10 then char_of (48 + n) else char_of (87 + n))"

definition json_escape :: "char \<Rightarrow> string" where
  "json_escape c =
     (let n = (of_char c :: nat) in
      if n = 34 then [char_of (92::nat), char_of (34::nat)]
      else if n = 92 then [char_of (92::nat), char_of (92::nat)]
      else if n = 8 then [char_of (92::nat), CHR ''b'']
      else if n = 9 then [char_of (92::nat), CHR ''t'']
      else if n = 10 then [char_of (92::nat), CHR ''n'']
      else if n = 12 then [char_of (92::nat), CHR ''f'']
      else if n = 13 then [char_of (92::nat), CHR ''r'']
      else if n < 32 then
        [char_of (92::nat), CHR ''u'', CHR ''0'', CHR ''0'', hex_digit (n div 16), hex_digit (n mod 16)]
      else [c])"

definition json_stringify :: "string \<Rightarrow> string" where
  "json_stringify s = char_of (34::nat) # concat (map json_escape s) @ [char_of (34::nat)]"

text \<open>
  The way back for one character: what a reader of JSON takes from the front of an escaped
  string, and what it leaves. It serves to show that \<^verbatim>\<open>JSON.stringify\<close> keeps different
  strings apart.
\<close>

definition unhex_digit :: "char \<Rightarrow> nat" where
  "unhex_digit h = (let k = (of_char h :: nat) in if k < 58 then k - 48 else k - 87)"

definition json_unescape_head :: "string \<Rightarrow> (char \<times> string) option" where
  "json_unescape_head s =
     (case s of
        [] \<Rightarrow> None
      | x # xs \<Rightarrow>
          if (of_char x :: nat) \<noteq> 92 then Some (x, xs)
          else (case xs of
                  [] \<Rightarrow> None
                | y # ys \<Rightarrow>
                    let k = (of_char y :: nat) in
                    if k = 34 then Some (char_of (34::nat), ys)
                    else if k = 92 then Some (char_of (92::nat), ys)
                    else if k = 98 then Some (char_of (8::nat), ys)
                    else if k = 116 then Some (char_of (9::nat), ys)
                    else if k = 110 then Some (char_of (10::nat), ys)
                    else if k = 102 then Some (char_of (12::nat), ys)
                    else if k = 114 then Some (char_of (13::nat), ys)
                    else if k = 117 then
                      (case ys of
                         a # b # h # l # zs \<Rightarrow> Some (char_of (unhex_digit h * 16 + unhex_digit l), zs)
                       | _ \<Rightarrow> None)
                    else None))"

text \<open>\<^verbatim>\<open>config.locking_verbose || config.log_file\<close>: an empty path is falsy.\<close>

definition verbose :: "config \<Rightarrow> bool" where
  "verbose config =
     (locking_verbose config \<or> (case log_file config of None \<Rightarrow> False | Some f \<Rightarrow> f \<noteq> []))"

definition call_output :: "output_call \<Rightarrow> runner_state \<Rightarrow> runner_state" where
  "call_output c state = state\<lparr>output_calls := output_calls state @ [c]\<rparr>"

definition call_external :: "ext_call \<Rightarrow> runner_state \<Rightarrow> runner_state" where
  "call_external c state = state\<lparr>ext_calls := ext_calls state @ [c]\<rparr>"

subsection \<open>annotateTaskResources\<close>

text \<open>The character class of \<^verbatim>\<open>/^[-A-Za-z_0-9]+$/\<close>, in the order it is written.\<close>

definition resource_char :: "char \<Rightarrow> bool" where
  "resource_char c =
     (c = CHR ''-'' \<or> (CHR ''A'' \<le> c \<and> c \<le> CHR ''Z'') \<or> (CHR ''a'' \<le> c \<and> c \<le> CHR ''z'')
      \<or> c = CHR ''_'' \<or> (CHR ''0'' \<le> c \<and> c \<le> CHR ''9''))"

text \<open>
  \<^verbatim>\<open>/^[-A-Za-z_0-9]+$/.test(r)\<close>: the whole string, one character or more, each of the
  class (without the flag \<^verbatim>\<open>m\<close>, \<^verbatim>\<open>$\<close> is the end of the input only).
\<close>

definition test_resource_name :: "string \<Rightarrow> bool" where
  "test_resource_name r = (r \<noteq> [] \<and> list_all resource_char r)"

text \<open>The loop over \<^verbatim>\<open>task.resources\<close>: the first name that fails the test throws.\<close>

fun check_names :: "string \<Rightarrow> string list \<Rightarrow> unit outcome" where
  "check_names tid [] = Returned ()"
| "check_names tid (r # rs) =
     (if test_resource_name r then check_names tid rs
      else Threw (AssertionError
        (''Invalid resource name in task '' @ tid @ '': '' @ json_stringify r)))"

definition annotateTaskResources ::
    "config \<Rightarrow> task \<Rightarrow> runner_state \<Rightarrow> unit outcome \<times> runner_state" where
  "annotateTaskResources config task state =
     (if no_locking config then (Returned (), state)
      else (check_names (task_id task) (resources task), state))"

subsection \<open>init and shutdown\<close>

definition init :: "config \<Rightarrow> runner_state \<Rightarrow> runner_state" where
  "init config state = call_external ExtInit (state\<lparr>locks := [], locks_length := None\<rparr>)"

text \<open>
  \<^verbatim>\<open>state.locks.length = 0\<close> writes a property on the \<^verbatim>\<open>Set\<close> object and leaves its elements;
  \<^verbatim>\<open>assert.equal(state.locks.size, 0, ...)\<close> then reads the number of elements.
\<close>

definition shutdown :: "config \<Rightarrow> runner_state \<Rightarrow> unit outcome \<times> runner_state" where
  "shutdown config state =
     (let state1 = call_external ExtShutdown state;
          state2 = state1\<lparr>locks_length := Some 0\<rparr>
      in if length (locks state2) = 0 then (Returned (), state2)
         else (Threw (AssertionError
                (''Still got some locks on shutdown: '' @ join '','' (sort (locks state2)))),
               state2))"

subsection \<open>acquire\<close>

text \<open>The last part of \<^verbatim>\<open>acquire\<close>: every resource is added to the set, one after the other.\<close>

definition acquire_locally :: "config \<Rightarrow> runner_state \<Rightarrow> task \<Rightarrow> bool outcome \<times> runner_state" where
  "acquire_locally config state task =
     (let state1 = state\<lparr>locks := fold set_add (resources task) (locks state)\<rparr>;
          state2 = (if verbose config
                    then call_output (LogVerbose (''[locking] '' @ task_id task @ '': Acquired ''
                           @ join '','' (resources task))) state1
                    else state1)
      in (Returned True, state2))"

text \<open>
  One attempt. The \<^verbatim>\<open>try\<close> around the external call catches its rejection. The model runs
  an attempt as one step: what other tasks do while the external call is awaited is not
  part of it.
\<close>

definition acquire ::
    "external_locking \<Rightarrow> config \<Rightarrow> runner_state \<Rightarrow> task \<Rightarrow> bool outcome \<times> runner_state" where
  "acquire ext config state task =
     (if no_locking config then (Returned True, state)
      else if length (resources task) = 0 then (Returned True, state)
      else if list_ex (set_has (locks state)) (resources task) then
        (Returned False,
         if verbose config
         then call_output (LogVerbose (''[locking] '' @ task_id task @ '': Failed to acquire ''
                @ join '','' (filter (set_has (locks state)) (resources task)))) state
         else state)
      else if \<not> no_external_locking config then
        (let state1 = call_external (ExternalAcquire (resources task) 40000) state
         in case ext (ext_calls state1) of
              Granted \<Rightarrow> acquire_locally config state1 task
            | Denied acquireRes \<Rightarrow>
                (Returned False,
                 if verbose config
                 then call_output (LogVerbose (''[exlocking] '' @ task_id task
                        @ '': Failed to acquire '' @ resource acquireRes
                        @ '', held by '' @ optional_string (client acquireRes)
                        @ '', expires in '' @ number_string (expireIn acquireRes) @ '' ms'')) state1
                 else state1)
            | Raised stack \<Rightarrow>
                (Returned False,
                 call_output (Color ''red'' (''[exlocking] Failed to acquire locks for ''
                   @ task_id task @ ''. Is the lockserver up and running?'' @ [CHR 0x0A, CHR 0x0A]
                   @ stack)) state1))
      else acquire_locally config state task)"

subsection \<open>acquireEventually\<close>

text \<open>
  The state of the loop: \<^verbatim>\<open>waitTime\<close>, the durations of the sleeps of this call so far, and
  the runner state. A sleep is a call \<^verbatim>\<open>wait(waitTime)\<close> of the utilities, and its duration is
  the number of milliseconds it is given. While the call sleeps the rest of the process
  runs: \<open>others k\<close> is what it does to the runner state during sleep number \<open>k\<close> (from 0), a
  parameter.
\<close>

type_synonym loop_state = "nat \<times> nat list \<times> runner_state"

type_synonym others = "nat \<Rightarrow> runner_state \<Rightarrow> runner_state"

text \<open>
  One turn of \<^verbatim>\<open>while (! await acquire(config, state, task))\<close>: the loop ends (\<open>Inr\<close>) when
  the attempt returns \<^verbatim>\<open>true\<close> or throws; otherwise the call sleeps \<^verbatim>\<open>waitTime\<close> and doubles it,
  up to 10000.
\<close>

definition attempt ::
    "external_locking \<Rightarrow> others \<Rightarrow> config \<Rightarrow> task \<Rightarrow> loop_state
      \<Rightarrow> loop_state + (bool outcome \<times> nat list \<times> runner_state)" where
  "attempt ext others config task st =
     (case st of (waitTime, waits, state) \<Rightarrow>
        (case acquire ext config state task of
           (Threw e, state1) \<Rightarrow> Inr (Threw e, waits, state1)
         | (Returned True, state1) \<Rightarrow> Inr (Returned True, waits, state1)
         | (Returned False, state1) \<Rightarrow>
             Inl (min 10000 (waitTime * 2), waits @ [waitTime], others (length waits) state1)))"

text \<open>The loop may run forever: then the value is \<open>None\<close>.\<close>

partial_function (option) acquireEventually_loop ::
    "external_locking \<Rightarrow> others \<Rightarrow> config \<Rightarrow> task \<Rightarrow> loop_state
      \<Rightarrow> (bool outcome \<times> nat list \<times> runner_state) option" where
  "acquireEventually_loop ext others config task st =
     (case attempt ext others config task st of
        Inr result \<Rightarrow> Some result
      | Inl st1 \<Rightarrow> acquireEventually_loop ext others config task st1)"

declare acquireEventually_loop.simps [code]

definition log_trying :: "config \<Rightarrow> runner_state \<Rightarrow> task \<Rightarrow> runner_state" where
  "log_trying config state task =
     (if verbose config
      then call_output (LogVerbose (''[locking] '' @ task_id task
             @ '': Trying to eventually acquire '' @ join '','' (resources task))) state
      else state)"

text \<open>
  The result: what the call returns, the durations of its sleeps in order, and the runner
  state it leaves.
\<close>

definition acquireEventually ::
    "external_locking \<Rightarrow> others \<Rightarrow> config \<Rightarrow> runner_state \<Rightarrow> task
      \<Rightarrow> (bool outcome \<times> nat list \<times> runner_state) option" where
  "acquireEventually ext others config state task =
     (if no_locking config then Some (Returned True, [], state)
      else acquireEventually_loop ext others config task (50, [], log_trying config state task))"

text \<open>The state of the loop after \<open>k\<close> turns that did not end it, if there are that many.\<close>

fun after_failures ::
    "external_locking \<Rightarrow> others \<Rightarrow> config \<Rightarrow> task \<Rightarrow> nat \<Rightarrow> loop_state \<Rightarrow> loop_state option" where
  "after_failures ext others config task 0 st = Some st"
| "after_failures ext others config task (Suc k) st =
     (case attempt ext others config task st of
        Inl st1 \<Rightarrow> after_failures ext others config task k st1
      | Inr result \<Rightarrow> None)"

subsection \<open>release\<close>

text \<open>
  The loop at the end of \<^verbatim>\<open>release\<close>: each resource is asserted to be in the set and then
  deleted, one after the other; a failed assertion leaves the loop with the deletions made
  before it.
\<close>

fun release_locally :: "string \<Rightarrow> string list \<Rightarrow> runner_state \<Rightarrow> error option \<times> runner_state" where
  "release_locally tid [] state = (None, state)"
| "release_locally tid (r # rs) state =
     (if set_has (locks state) r
      then release_locally tid rs (state\<lparr>locks := set_delete r (locks state)\<rparr>)
      else (Some (AssertionError (''Trying to release '' @ r @ '' for '' @ tid
              @ '', but not in current locks '' @ join '','' (sort (locks state)))), state))"

text \<open>The external step of \<^verbatim>\<open>release\<close>: whatever the client answers, the function goes on.\<close>

definition release_externally ::
    "external_locking \<Rightarrow> config \<Rightarrow> runner_state \<Rightarrow> task \<Rightarrow> runner_state" where
  "release_externally ext config state task =
     (let state1 = call_external (ExternalRelease (resources task)) state
      in case ext (ext_calls state1) of
           Granted \<Rightarrow> state1
         | Denied response \<Rightarrow>
             (if verbose config
              then call_output (LogVerbose (''[exlocking] '' @ task_id task
                     @ '': Failed to release '' @ resource response
                     @ '', held by '' @ optional_string (client response)
                     @ '' expires in '' @ number_string (expireIn response) @ '' ms'')) state1
              else state1)
         | Raised stack \<Rightarrow>
             call_output (Log (''[exlocking] Failed to release for '' @ task_id task @ '': ''
               @ stack)) state1)"

definition release ::
    "external_locking \<Rightarrow> config \<Rightarrow> runner_state \<Rightarrow> task \<Rightarrow> js_value outcome \<times> runner_state" where
  "release ext config state task =
     (if no_locking config then (Returned JsTrue, state)
      else if length (resources task) = 0 then (Returned JsUndefined, state)
      else
        (let state1 = (if \<not> no_external_locking config
                       then release_externally ext config state task else state)
         in case release_locally (task_id task) (resources task) state1 of
              (Some e, state2) \<Rightarrow> (Threw e, state2)
            | (None, state2) \<Rightarrow>
                (Returned JsUndefined,
                 if verbose config
                 then call_output (LogVerbose (''[locking] '' @ task_id task @ '': Released ''
                        @ join '','' (resources task))) state2
                 else state2)))"

subsection \<open>listConflicts\<close>

text \<open>
  \<^verbatim>\<open>tasksByResource\<close> is a \<^verbatim>\<open>Map\<close> from a resource to an array of tasks: a list of pairs in
  insertion order. \<^verbatim>\<open>Map.prototype.set\<close> on a key that is present keeps its place.
\<close>

type_synonym tasks_by_resource = "(string \<times> task list) list"

definition map_get :: "tasks_by_resource \<Rightarrow> string \<Rightarrow> task list option" where
  "map_get m k = map_of m k"

fun map_set :: "string \<Rightarrow> task list \<Rightarrow> tasks_by_resource \<Rightarrow> tasks_by_resource" where
  "map_set k v [] = [(k, v)]"
| "map_set k v ((k1, v1) # m) = (if k1 = k then (k, v) # m else (k1, v1) # map_set k v m)"

text \<open>
  The body of the inner loop: the array of the resource, made and stored when the \<^verbatim>\<open>Map\<close> has
  none, gets the task pushed. The array is shared with the \<^verbatim>\<open>Map\<close>, so the push is a \<open>map_set\<close>.
\<close>

definition push_task :: "task \<Rightarrow> string \<Rightarrow> tasks_by_resource \<Rightarrow> tasks_by_resource" where
  "push_task t r m =
     (case map_get m r of
        None \<Rightarrow> map_set r ([] @ [t]) (map_set r [] m)
      | Some tasks \<Rightarrow> map_set r (tasks @ [t]) m)"

definition group_tasks :: "task list \<Rightarrow> tasks_by_resource" where
  "group_tasks tasks = fold (\<lambda>t m. fold (push_task t) (resources t) m) tasks []"

text \<open>The second loop: an entry with one task is skipped, any other is written out.\<close>

definition report_entry ::
    "string \<times> task list \<Rightarrow> bool \<times> runner_state \<Rightarrow> bool \<times> runner_state" where
  "report_entry entry acc =
     (case entry of (resource_name, tasks) \<Rightarrow>
        (case acc of (anyConflicts, state) \<Rightarrow>
           if length tasks = 1 then (anyConflicts, state)
           else (True, call_output (Log (resource_name @ '': '' @ join '' '' (map task_id tasks))) state)))"

definition listConflicts :: "config \<Rightarrow> task list \<Rightarrow> runner_state \<Rightarrow> runner_state" where
  "listConflicts config tasks state =
     (case fold report_entry (group_tasks tasks) (False, state) of
        (anyConflicts, state1) \<Rightarrow>
          if \<not> anyConflicts then call_output (Log ''No resource conflicts found'') state1
          else state1)"

text \<open>The array that the \<^verbatim>\<open>Map\<close> has for a resource; empty when it has none.\<close>

definition entries :: "tasks_by_resource \<Rightarrow> string \<Rightarrow> task list" where
  "entries m r = (case map_of m r of None \<Rightarrow> [] | Some ts \<Rightarrow> ts)"

text \<open>The entries that the second loop writes out, in the order of the \<^verbatim>\<open>Map\<close>.\<close>

definition reported_conflicts :: "task list \<Rightarrow> tasks_by_resource" where
  "reported_conflicts tasks = filter (\<lambda>entry. length (snd entry) \<noteq> 1) (group_tasks tasks)"

definition conflict_line :: "string \<times> task list \<Rightarrow> output_call" where
  "conflict_line entry = Log (fst entry @ '': '' @ join '' '' (map task_id (snd entry)))"

subsection \<open>The conflicts in the specification\<close>

text \<open>
  The specification groups the tasks by each resource they declare and reports a resource
  claimed by more than one task, with the tasks sharing it: \<open>claimants\<close> are the tasks of the
  batch, in order, that declare the resource. The code pushes a task once for each place
  the resource has in its list: \<open>declarers\<close>.
\<close>

definition claimants :: "task list \<Rightarrow> string \<Rightarrow> task list" where
  "claimants tasks r = filter (\<lambda>t. r \<in> set (resources t)) tasks"

definition declarers :: "task list \<Rightarrow> string \<Rightarrow> task list" where
  "declarers tasks r = concat (map (\<lambda>t. map (\<lambda>x. t) (filter (\<lambda>x. x = r) (resources t))) tasks)"

subsection \<open>The syntax of resource names in the specification\<close>

text \<open>
  The specification gives the syntax as \<^verbatim>\<open>[A-Za-z0-9_-]+\<close>: one character or more, each a
  letter, a digit, an underscore or a hyphen.
\<close>

definition spec_name_chars :: string where
  "spec_name_chars = ''ABCDEFGHIJKLMNOPQRSTUVWXYZabcdefghijklmnopqrstuvwxyz0123456789_-''"

definition spec_resource_name :: "string \<Rightarrow> bool" where
  "spec_resource_name r = (r \<noteq> [] \<and> (\<forall>c\<in>set r. c \<in> set spec_name_chars))"

subsection \<open>Concrete inputs\<close>

definition locking_config :: config where
  "locking_config =
     \<lparr>no_locking = False, no_external_locking = False, locking_verbose = False, log_file = None\<rparr>"

definition quiet_local_config :: config where
  "quiet_local_config =
     \<lparr>no_locking = False, no_external_locking = True, locking_verbose = False, log_file = None\<rparr>"

definition fresh_state :: runner_state where
  "fresh_state = \<lparr>locks = [], locks_length = None, ext_calls = [], output_calls = []\<rparr>"

definition holding :: "string list \<Rightarrow> runner_state" where
  "holding ls = \<lparr>locks = ls, locks_length = None, ext_calls = [], output_calls = []\<rparr>"

definition task_A :: task where
  "task_A = \<lparr>task_id = ''A'', resources = [''r1'']\<rparr>"

definition task_B :: task where
  "task_B = \<lparr>task_id = ''B'', resources = [''r1'']\<rparr>"

definition task_C :: task where
  "task_C = \<lparr>task_id = ''C'', resources = [''r2'']\<rparr>"

definition task_two :: task where
  "task_two = \<lparr>task_id = ''T'', resources = [''r1'', ''r2'']\<rparr>"

definition task_twice :: task where
  "task_twice = \<lparr>task_id = ''D'', resources = [''r1'', ''r1'']\<rparr>"

text \<open>The rest of the process: task \<open>A\<close> releases its resource during sleep number \<open>n\<close>.\<close>

definition A_releases_during :: "nat \<Rightarrow> others" where
  "A_releases_during n =
     (\<lambda>k state. if k = n then snd (release (\<lambda>calls. Granted) quiet_local_config state task_A)
                else state)"

definition conflict_r1 :: lock where
  "conflict_r1 = \<lparr>resource = ''r1'', expireIn = 1200, client = Some ''other''\<rparr>"

section \<open>Properties\<close>

subsection \<open>Auxiliary facts\<close>

lemma call_output_fields [simp]:
  "locks (call_output c s) = locks s"
  "locks_length (call_output c s) = locks_length s"
  "ext_calls (call_output c s) = ext_calls s"
  "output_calls (call_output c s) = output_calls s @ [c]"
  by (simp_all add: call_output_def)

lemma call_external_fields [simp]:
  "locks (call_external c s) = locks s"
  "locks_length (call_external c s) = locks_length s"
  "ext_calls (call_external c s) = ext_calls s @ [c]"
  "output_calls (call_external c s) = output_calls s"
  by (simp_all add: call_external_def)

lemma set_fold_set_add: "set (fold set_add rs ls) = set ls \<union> set rs"
  by (induction rs arbitrary: ls) (auto simp: set_add_def)

lemma distinct_fold_set_add: "distinct ls \<Longrightarrow> distinct (fold set_add rs ls)"
  by (induction rs arbitrary: ls) (auto simp: set_add_def)

lemma acquire_locally_result:
  "fst (acquire_locally config state task) = Returned True"
  "locks (snd (acquire_locally config state task)) = fold set_add (resources task) (locks state)"
  "ext_calls (snd (acquire_locally config state task)) = ext_calls state"
  by (simp_all add: acquire_locally_def Let_def)

lemma list_ex_set_has: "list_ex (set_has ls) rs = (\<exists>r\<in>set rs. r \<in> set ls)"
  by (simp add: list_ex_iff set_has_def)

lemma acquire_held:
  assumes "\<not> no_locking config" and "\<exists>r\<in>set (resources task). r \<in> set (locks state)"
  shows "fst (acquire ext config state task) = Returned False"
    and "locks (snd (acquire ext config state task)) = locks state"
    and "ext_calls (snd (acquire ext config state task)) = ext_calls state"
    and "locks_length (snd (acquire ext config state task)) = locks_length state"
proof -
  from assms(2) have ne: "resources task \<noteq> []" by auto
  from assms(2) have ex: "list_ex (set_has (locks state)) (resources task)"
    by (simp add: list_ex_set_has)
  show "fst (acquire ext config state task) = Returned False"
    and "locks (snd (acquire ext config state task)) = locks state"
    and "ext_calls (snd (acquire ext config state task)) = ext_calls state"
    and "locks_length (snd (acquire ext config state task)) = locks_length state"
    using assms(1) ne ex by (simp_all add: acquire_def)
qed

lemma acquire_true_holds:
  assumes "\<not> no_locking config" and "acquire ext config state task = (Returned True, state1)"
  shows "set (resources task) \<subseteq> set (locks state1)"
proof (cases "resources task = []")
  case True
  then show ?thesis by simp
next
  case False
  have free: "\<not> list_ex (set_has (locks state)) (resources task)"
    using assms False by (auto simp: acquire_def split: if_splits)
  show ?thesis
  proof (cases "no_external_locking config")
    case True
    with assms False free have "state1 = snd (acquire_locally config state task)"
      by (simp add: acquire_def)
    then show ?thesis by (simp add: acquire_locally_result set_fold_set_add)
  next
    case ext: False
    let ?s = "call_external (ExternalAcquire (resources task) 40000) state"
    from assms False free ext have "ext (ext_calls ?s) = Granted \<and> state1 = snd (acquire_locally config ?s task)"
      by (auto simp: acquire_def Let_def split: ext_reply.splits if_splits)
    then show ?thesis by (simp add: acquire_locally_result set_fold_set_add)
  qed
qed

lemma acquire_blocked_repeat:
  assumes "\<not> no_locking config" and "\<exists>r\<in>set (resources B). r \<in> set (locks state)"
  shows "locks (((\<lambda>s. snd (acquire ext config s B)) ^^ n) state) = locks state
       \<and> ext_calls (((\<lambda>s. snd (acquire ext config s B)) ^^ n) state) = ext_calls state"
proof (induction n)
  case 0
  show ?case by simp
next
  case (Suc n)
  let ?s = "((\<lambda>s. snd (acquire ext config s B)) ^^ n) state"
  from Suc assms(2) have "\<exists>r\<in>set (resources B). r \<in> set (locks ?s)" by simp
  from acquire_held(2,3) [OF assms(1) this, where ext = ext] Suc show ?case by simp
qed

lemma filter_removeAll_notin:
  "filter (\<lambda>x. x \<notin> set rs) (removeAll r xs) = filter (\<lambda>x. x \<notin> set (r # rs)) xs"
  by (induction xs) auto

lemma release_locally_ok:
  "distinct rs \<Longrightarrow> set rs \<subseteq> set (locks state) \<Longrightarrow>
   release_locally tid rs state = (None, state\<lparr>locks := filter (\<lambda>x. x \<notin> set rs) (locks state)\<rparr>)"
proof (induction rs arbitrary: state)
  case Nil
  show ?case by simp
next
  case (Cons r rs)
  let ?s = "state\<lparr>locks := set_delete r (locks state)\<rparr>"
  from Cons.prems have "set rs \<subseteq> set (locks ?s)" by (auto simp: set_delete_def)
  with Cons.prems have "release_locally tid rs ?s = (None, ?s\<lparr>locks := filter (\<lambda>x. x \<notin> set rs) (locks ?s)\<rparr>)"
    by (intro Cons.IH) simp_all
  moreover have "filter (\<lambda>x. x \<notin> set rs) (removeAll r (locks state)) = filter (\<lambda>x. x \<notin> set (r # rs)) (locks state)"
    by (rule filter_removeAll_notin)
  ultimately show ?case using Cons.prems by (simp add: set_has_def set_delete_def)
qed

lemma release_externally_fields [simp]:
  "locks (release_externally ext config state task) = locks state"
  "locks_length (release_externally ext config state task) = locks_length state"
  "ext_calls (release_externally ext config state task) = ext_calls state @ [ExternalRelease (resources task)]"
  by (simp_all add: release_externally_def Let_def split: ext_reply.splits)

lemma release_ok:
  assumes "\<not> no_locking config" "resources task \<noteq> []" "distinct (resources task)"
    "set (resources task) \<subseteq> set (locks state)"
  shows "fst (release ext config state task) = Returned JsUndefined"
    and "locks (snd (release ext config state task)) = filter (\<lambda>x. x \<notin> set (resources task)) (locks state)"
proof -
  let ?s = "if \<not> no_external_locking config then release_externally ext config state task else state"
  have "set (resources task) \<subseteq> set (locks ?s)" using assms(4) by simp
  from release_locally_ok [OF assms(3) this, where tid = "task_id task"] have
    rl: "release_locally (task_id task) (resources task) ?s = (None, ?s\<lparr>locks := filter (\<lambda>x. x \<notin> set (resources task)) (locks state)\<rparr>)"
    by simp
  show "fst (release ext config state task) = Returned JsUndefined"
    using assms(1,2) rl by (simp add: release_def Let_def)
  show "locks (snd (release ext config state task)) = filter (\<lambda>x. x \<notin> set (resources task)) (locks state)"
    using assms(1,2) rl by (simp add: release_def Let_def)
qed

lemma acquire_free_external:
  assumes "\<not> no_locking config" "\<not> no_external_locking config" "resources task \<noteq> []"
    "\<forall>r\<in>set (resources task). r \<notin> set (locks state)"
  shows "acquire ext config state task =
     (let state1 = call_external (ExternalAcquire (resources task) 40000) state
      in case ext (ext_calls state1) of
           Granted \<Rightarrow> acquire_locally config state1 task
         | Denied acquireRes \<Rightarrow>
             (Returned False,
              if verbose config
              then call_output (LogVerbose (''[exlocking] '' @ task_id task
                     @ '': Failed to acquire '' @ resource acquireRes
                     @ '', held by '' @ optional_string (client acquireRes)
                     @ '', expires in '' @ number_string (expireIn acquireRes) @ '' ms'')) state1
              else state1)
         | Raised stack \<Rightarrow>
             (Returned False,
              call_output (Color ''red'' (''[exlocking] Failed to acquire locks for ''
                @ task_id task @ ''. Is the lockserver up and running?'' @ [CHR 0x0A, CHR 0x0A]
                @ stack)) state1))"
proof -
  from assms(4) have "\<not> list_ex (set_has (locks state)) (resources task)"
    by (simp add: list_ex_set_has)
  with assms(1,2,3) show ?thesis by (simp add: acquire_def)
qed

lemma acquire_trivial:
  "resources task = [] \<or> no_locking config \<Longrightarrow> acquire ext config state task = (Returned True, state)"
  by (auto simp: acquire_def)

lemma unhex_hex_digit: "a < 16 \<Longrightarrow> unhex_digit (hex_digit a) = a"
  by (simp add: unhex_digit_def hex_digit_def Let_def)

lemma char_of_code: "(of_char c :: nat) = k \<Longrightarrow> char_of k = c"
  by auto

lemma json_unescape_head_escape:
  "json_unescape_head (json_escape c @ xs) = Some (c, xs)"
proof -
  let ?n = "of_char c :: nat"
  consider "?n = 34" | "?n = 92" | "?n = 8" | "?n = 9" | "?n = 10" | "?n = 12" | "?n = 13"
    | "?n < 32" "?n \<noteq> 8" "?n \<noteq> 9" "?n \<noteq> 10" "?n \<noteq> 12" "?n \<noteq> 13"
    | "32 \<le> ?n" "?n \<noteq> 34" "?n \<noteq> 92"
    by linarith
  then show ?thesis
  proof cases
    case 1
    then show ?thesis by (simp add: json_escape_def json_unescape_head_def char_of_code)
  next
    case 2
    then show ?thesis by (simp add: json_escape_def json_unescape_head_def char_of_code)
  next
    case 3
    then show ?thesis by (simp add: json_escape_def json_unescape_head_def char_of_code)
  next
    case 4
    then show ?thesis by (simp add: json_escape_def json_unescape_head_def char_of_code)
  next
    case 5
    then show ?thesis by (simp add: json_escape_def json_unescape_head_def char_of_code)
  next
    case 6
    then show ?thesis by (simp add: json_escape_def json_unescape_head_def char_of_code)
  next
    case 7
    then show ?thesis by (simp add: json_escape_def json_unescape_head_def char_of_code)
  next
    case 8
    then have e: "json_escape c =
        [char_of (92::nat), CHR ''u'', CHR ''0'', CHR ''0'', hex_digit (?n div 16), hex_digit (?n mod 16)]"
      by (simp add: json_escape_def Let_def)
    from 8(1) have d: "?n div 16 < 16" by simp
    have m: "?n mod 16 < 16" by simp
    have "char_of (?n div 16 * 16 + ?n mod 16) = c" by simp
    then show ?thesis
      by (simp add: e json_unescape_head_def unhex_hex_digit [OF d] unhex_hex_digit [OF m])
  next
    case 9
    then have "json_escape c = [c]" by (simp add: json_escape_def Let_def)
    with 9 show ?thesis by (simp add: json_unescape_head_def)
  qed
qed

lemma json_unescape_head_Nil: "json_unescape_head [] = None"
  by (simp add: json_unescape_head_def)

lemma escaped_not_Nil: "json_escape d @ xs \<noteq> []"
proof
  assume "json_escape d @ xs = []"
  then have "json_unescape_head (json_escape d @ xs) = json_unescape_head []"
    by (rule arg_cong)
  then show False by (simp only: json_unescape_head_escape json_unescape_head_Nil) simp
qed

lemma escaped_head_inj:
  assumes "json_escape c @ xs = json_escape d @ ys"
  shows "c = d \<and> xs = ys"
proof -
  from assms have "json_unescape_head (json_escape c @ xs) = json_unescape_head (json_escape d @ ys)"
    by (rule arg_cong)
  then show ?thesis by (simp only: json_unescape_head_escape) simp
qed

lemma escaped_inj:
  "concat (map json_escape s) = concat (map json_escape t) \<Longrightarrow> s = t"
proof (induction s arbitrary: t)
  case Nil
  show ?case
  proof (cases t)
    case Nil
    then show ?thesis by simp
  next
    case (Cons d t1)
    with Nil.prems have "json_escape d @ concat (map json_escape t1) = []" by simp
    with escaped_not_Nil show ?thesis by blast
  qed
next
  case (Cons c s1)
  show ?case
  proof (cases t)
    case Nil
    with Cons.prems have "json_escape c @ concat (map json_escape s1) = []" by simp
    with escaped_not_Nil show ?thesis by blast
  next
    case (Cons d t1)
    with Cons.prems have "json_escape c @ concat (map json_escape s1)
        = json_escape d @ concat (map json_escape t1)"
      by simp
    from escaped_head_inj [OF this]
    have "c = d" and "concat (map json_escape s1) = concat (map json_escape t1)" by simp_all
    with Cons.IH Cons show ?thesis by simp
  qed
qed

lemma json_stringify_inj: "json_stringify r = json_stringify s \<Longrightarrow> r = s"
  by (rule escaped_inj) (simp add: json_stringify_def)

lemma json_stringify_bad_name:
  "json_stringify ''bad name'' = CHR 0x22 # ''bad name'' @ [CHR 0x22]"
proof -
  have "char_of (34::nat) = CHR 0x22" by (rule char_of_code) simp
  then show ?thesis by (simp add: json_stringify_def json_escape_def)
qed

lemma resource_char_iff: "resource_char c = (c \<in> set spec_name_chars)"
  by (cases c) (simp add: resource_char_def spec_name_chars_def less_eq_char_def)

lemma test_resource_name_iff: "test_resource_name r = spec_resource_name r"
  by (simp add: test_resource_name_def spec_resource_name_def list_all_iff resource_char_iff)

lemma check_names_throws_iff:
  "(\<exists>e. check_names tid rs = Threw e) = (\<exists>r\<in>set rs. \<not> test_resource_name r)"
  by (induction rs) auto

lemma check_names_first_invalid:
  "\<forall>x\<in>set pre. test_resource_name x \<Longrightarrow> \<not> test_resource_name r \<Longrightarrow>
   check_names tid (pre @ r # post) =
     Threw (AssertionError (''Invalid resource name in task '' @ tid @ '': '' @ json_stringify r))"
  by (induction pre) auto

lemma release_locally_fail:
  "distinct pre \<Longrightarrow> set pre \<subseteq> set (locks state) \<Longrightarrow> r \<in> set pre \<or> r \<notin> set (locks state) \<Longrightarrow>
   release_locally tid (pre @ r # post) state =
     (Some (AssertionError (''Trying to release '' @ r @ '' for '' @ tid
              @ '', but not in current locks ''
              @ join '','' (sort (filter (\<lambda>x. x \<notin> set pre) (locks state))))),
      state\<lparr>locks := filter (\<lambda>x. x \<notin> set pre) (locks state)\<rparr>)"
proof (induction pre arbitrary: state)
  case Nil
  then show ?case by (simp add: set_has_def)
next
  case (Cons p pre)
  let ?s = "state\<lparr>locks := set_delete p (locks state)\<rparr>"
  from Cons.prems have 1: "distinct pre" and 2: "set pre \<subseteq> set (locks ?s)"
    and 3: "r \<in> set pre \<or> r \<notin> set (locks ?s)" and p: "p \<in> set (locks state)"
    by (auto simp: set_delete_def)
  have f: "filter (\<lambda>x. x \<notin> set pre) (locks ?s) = filter (\<lambda>x. x \<notin> set (p # pre)) (locks state)"
    by (simp add: set_delete_def filter_removeAll_notin del: set_simps)
  from Cons.IH [OF 1 2 3] p f show ?case by (simp add: set_has_def)
qed

lemma release_locally_decomp:
  "\<not> (distinct rs \<and> set rs \<subseteq> L) \<Longrightarrow>
   \<exists>pre r post. rs = pre @ r # post \<and> distinct pre \<and> set pre \<subseteq> L \<and> (r \<in> set pre \<or> r \<notin> L)"
proof (induction rs rule: rev_induct)
  case Nil
  then show ?case by simp
next
  case (snoc x xs)
  show ?case
  proof (cases "distinct xs \<and> set xs \<subseteq> L")
    case True
    with snoc.prems have "x \<in> set xs \<or> x \<notin> L" by auto
    with True have "xs @ [x] = xs @ x # [] \<and> distinct xs \<and> set xs \<subseteq> L \<and> (x \<in> set xs \<or> x \<notin> L)"
      by simp
    then show ?thesis by blast
  next
    case False
    from snoc.IH [OF this] obtain pre r post where
      "xs = pre @ r # post" "distinct pre" "set pre \<subseteq> L" "r \<in> set pre \<or> r \<notin> L" by blast
    then have "xs @ [x] = pre @ r # (post @ [x]) \<and> distinct pre \<and> set pre \<subseteq> L \<and> (r \<in> set pre \<or> r \<notin> L)"
      by simp
    then show ?thesis by blast
  qed
qed

lemmas run_defs =
  acquire_def acquire_locally_def release_def release_externally_def call_external_def
  call_output_def set_has_def set_add_def set_delete_def verbose_def

lemmas input_defs =
  locking_config_def quiet_local_config_def A_releases_during_def fresh_state_def holding_def task_A_def task_B_def
  task_C_def task_two_def task_twice_def conflict_r1_def

lemma release_enabled:
  assumes "\<not> no_locking config" and "resources task \<noteq> []"
  shows "release ext config state task =
     (let state1 = (if \<not> no_external_locking config
                    then release_externally ext config state task else state)
      in case release_locally (task_id task) (resources task) state1 of
           (Some e, state2) \<Rightarrow> (Threw e, state2)
         | (None, state2) \<Rightarrow>
             (Returned JsUndefined,
              if verbose config
              then call_output (LogVerbose (''[locking] '' @ task_id task @ '': Released ''
                     @ join '','' (resources task))) state2
              else state2))"
  using assms by (simp add: release_def)

lemma acquire_succeeds:
  assumes "\<not> no_locking config" and "resources task \<noteq> []"
    and "\<forall>r\<in>set (resources task). r \<notin> set (locks state)"
    and "no_external_locking config
         \<or> ext (ext_calls state @ [ExternalAcquire (resources task) 40000]) = Granted"
  shows "fst (acquire ext config state task) = Returned True"
    and "locks (snd (acquire ext config state task)) = fold set_add (resources task) (locks state)"
proof -
  from assms(3) have free: "\<not> list_ex (set_has (locks state)) (resources task)"
    by (simp add: list_ex_set_has)
  show "fst (acquire ext config state task) = Returned True"
    using assms(1,2,4) free by (auto simp: acquire_def Let_def acquire_locally_result)
  show "locks (snd (acquire ext config state task)) = fold set_add (resources task) (locks state)"
    using assms(1,2,4) free by (auto simp: acquire_def Let_def acquire_locally_result)
qed

lemma acquire_never_throws: "fst (acquire ext config state task) \<noteq> Threw e"
  by (simp add: acquire_def acquire_locally_def Let_def split: ext_reply.splits)

lemma attempt_Inr:
  "attempt ext others config task (w, ws, s) = Inr result \<longleftrightarrow>
     fst (acquire ext config s task) = Returned True
     \<and> result = (Returned True, ws, snd (acquire ext config s task))"
proof (cases "acquire ext config s task")
  case (Pair v s1)
  with acquire_never_throws [of ext config s task] show ?thesis
    by (cases v) (auto simp: attempt_def split: bool.splits)
qed

lemma attempt_Inl:
  "attempt ext others config task (w, ws, s) = Inl st \<longleftrightarrow>
     fst (acquire ext config s task) = Returned False
     \<and> st = (min 10000 (w * 2), ws @ [w], others (length ws) (snd (acquire ext config s task)))"
proof (cases "acquire ext config s task")
  case (Pair v s1)
  with acquire_never_throws [of ext config s task] show ?thesis
    by (cases v) (auto simp: attempt_def split: bool.splits)
qed

lemma cap_double: "min 10000 (min 10000 (w * 2) * 2 ^ i) = min (10000::nat) (w * 2 ^ Suc i)"
proof (cases "w * 2 \<le> 10000")
  case True
  then have "min 10000 (w * 2) = w * 2" by (rule min_absorb2)
  then show ?thesis by (simp only: power_Suc mult.assoc)
next
  case False
  then have big: "10000 \<le> w * 2" by simp
  then have m: "min 10000 (w * 2) = 10000" by (rule min_absorb1)
  have p: "(1::nat) \<le> 2 ^ i" by simp
  from mult_le_mono2 [OF p, of 10000] have 1: "(10000::nat) \<le> 10000 * 2 ^ i"
    by (simp only: mult_1_right)
  from mult_le_mono2 [OF p, of "w * 2"] have "w * 2 \<le> w * 2 * 2 ^ i"
    by (simp only: mult_1_right)
  with big have 2: "10000 \<le> w * 2 ^ Suc i" by (simp only: power_Suc mult.assoc)
  from 1 have "min 10000 (10000 * 2 ^ i) = (10000::nat)" by (rule min_absorb1)
  moreover from 2 have "min 10000 (w * 2 ^ Suc i) = 10000" by (rule min_absorb1)
  ultimately show ?thesis by (simp only: m)
qed

lemma map_upt_shift: "map f [0..<Suc k] = f 0 # map (\<lambda>i. f (Suc i)) [0..<k]"
proof -
  have "[0..<Suc k] = 0 # map Suc [0..<k]"
    by (simp add: upt_conv_Cons map_Suc_upt del: upt_Suc)
  then show ?thesis by (simp add: comp_def del: upt_Suc)
qed

lemma after_failures_waits:
  "w \<le> 10000 \<Longrightarrow> after_failures ext others config task k (w, ws, s) = Some (w1, ws1, s1) \<Longrightarrow>
   w1 = min 10000 (w * 2 ^ k) \<and> ws1 = ws @ map (\<lambda>i. min 10000 (w * 2 ^ i)) [0..<k]"
proof (induction k arbitrary: w ws s)
  case 0
  then show ?case by simp
next
  case (Suc k)
  from Suc.prems(2) obtain st where
    a: "attempt ext others config task (w, ws, s) = Inl st"
    and f: "after_failures ext others config task k st = Some (w1, ws1, s1)"
    by (auto split: sum.splits)
  from a obtain s2 where st: "st = (min 10000 (w * 2), ws @ [w], s2)"
    by (auto simp: attempt_Inl)
  have "min 10000 (w * 2) \<le> (10000::nat)" by simp
  from Suc.IH [OF this f [unfolded st]]
  have "w1 = min 10000 (w * 2 ^ Suc k)"
    and "ws1 = (ws @ [w]) @ map (\<lambda>i. min 10000 (w * 2 ^ Suc i)) [0..<k]"
    by (simp_all only: cap_double)
  moreover have "map (\<lambda>i. min 10000 (w * 2 ^ i)) [0..<Suc k]
      = w # map (\<lambda>i. min 10000 (w * 2 ^ Suc i)) [0..<k]"
    using Suc.prems(1) by (subst map_upt_shift) simp
  ultimately show ?case by simp
qed

lemma loop_complete:
  "after_failures ext others config task k st = Some st1 \<Longrightarrow>
   attempt ext others config task st1 = Inr result \<Longrightarrow>
   acquireEventually_loop ext others config task st = Some result"
proof (induction k arbitrary: st)
  case 0
  then show ?case by (subst acquireEventually_loop.simps) simp
next
  case (Suc k)
  from Suc.prems(1) obtain st2 where
    a: "attempt ext others config task st = Inl st2"
    and f: "after_failures ext others config task k st2 = Some st1"
    by (auto split: sum.splits)
  from Suc.IH [OF f Suc.prems(2)] a show ?case
    by (subst acquireEventually_loop.simps) simp
qed

lemma loop_sound:
  assumes "acquireEventually_loop ext others config task st = Some result"
  shows "\<exists>k st1. after_failures ext others config task k st = Some st1
     \<and> attempt ext others config task st1 = Inr result"
proof (rule acquireEventually_loop.raw_induct
    [where P = "\<lambda>ext others config task st result.
       \<exists>k st1. after_failures ext others config task k st = Some st1
         \<and> attempt ext others config task st1 = Inr result", OF _ assms])
  fix loop :: "external_locking \<Rightarrow> others \<Rightarrow> config \<Rightarrow> task \<Rightarrow> loop_state
      \<Rightarrow> (bool outcome \<times> nat list \<times> runner_state) option"
  fix ext others config task st result
  assume IH: "\<And>ext others config task st result.
      loop ext others config task st = Some result \<Longrightarrow>
      \<exists>k st1. after_failures ext others config task k st = Some st1
        \<and> attempt ext others config task st1 = Inr result"
  assume step: "(case attempt ext others config task st of
        Inl st1 \<Rightarrow> loop ext others config task st1
      | Inr result \<Rightarrow> Some result) = Some result"
  show "\<exists>k st1. after_failures ext others config task k st = Some st1
      \<and> attempt ext others config task st1 = Inr result"
  proof (cases "attempt ext others config task st")
    case (Inr r)
    with step have "after_failures ext others config task 0 st = Some st
      \<and> attempt ext others config task st = Inr result" by simp
    then show ?thesis by blast
  next
    case (Inl st2)
    with step have "loop ext others config task st2 = Some result" by simp
    from IH [OF this] obtain k st1 where
      "after_failures ext others config task k st2 = Some st1"
      "attempt ext others config task st1 = Inr result" by blast
    with Inl have "after_failures ext others config task (Suc k) st = Some st1
      \<and> attempt ext others config task st1 = Inr result" by simp
    then show ?thesis by blast
  qed
qed

lemma backoff_mono: "i \<le> j \<Longrightarrow> min (10000::nat) (50 * 2 ^ i) \<le> min 10000 (50 * 2 ^ j)"
proof -
  assume "i \<le> j"
  then have "(2::nat) ^ i \<le> 2 ^ j" by (simp add: power_increasing)
  then have "(50::nat) * 2 ^ i \<le> 50 * 2 ^ j" by (rule mult_le_mono2)
  with order_refl show ?thesis by (rule min.mono)
qed

lemma sorted_backoff: "sorted (map (\<lambda>i. min (10000::nat) (50 * 2 ^ i)) [0..<k])"
  unfolding sorted_iff_nth_mono
proof (intro allI impI)
  fix i j
  assume "i \<le> j" and "j < length (map (\<lambda>i. min (10000::nat) (50 * 2 ^ i)) [0..<k])"
  then have "i < k" and "j < k" by simp_all
  then have "map (\<lambda>i. min (10000::nat) (50 * 2 ^ i)) [0..<k] ! i = min 10000 (50 * 2 ^ i)"
    and "map (\<lambda>i. min (10000::nat) (50 * 2 ^ i)) [0..<k] ! j = min 10000 (50 * 2 ^ j)"
    by (simp_all del: upt_Suc)
  with backoff_mono [OF \<open>i \<le> j\<close>]
  show "map (\<lambda>i. min (10000::nat) (50 * 2 ^ i)) [0..<k] ! i
      \<le> map (\<lambda>i. min (10000::nat) (50 * 2 ^ i)) [0..<k] ! j"
    by (simp only:)
qed

lemma map_of_map_set: "map_of (map_set k v m) = (map_of m)(k \<mapsto> v)"
  by (induction m) (auto simp: fun_eq_iff)

lemma keys_map_set:
  "map fst (map_set k v m) = (if k \<in> fst ` set m then map fst m else map fst m @ [k])"
proof (induction m)
  case Nil
  show ?case by simp
next
  case (Cons p m)
  obtain k1 v1 where p: "p = (k1, v1)" by (cases p)
  show ?case
  proof (cases "k1 = k")
    case True
    with p show ?thesis by simp
  next
    case False
    with p Cons.IH show ?thesis by simp
  qed
qed

lemma keys_set_map_set: "fst ` set (map_set k v m) = insert k (fst ` set m)"
proof -
  have "fst ` set (map_set k v m) = set (map fst (map_set k v m))" by simp
  also have "\<dots> = insert k (fst ` set m)" unfolding keys_map_set by auto
  finally show ?thesis .
qed

lemma map_of_push_task: "map_of (push_task t r m) = (map_of m)(r \<mapsto> entries m r @ [t])"
  by (simp add: push_task_def map_get_def entries_def map_of_map_set split: option.splits)

lemma keys_push_task:
  "map fst (push_task t r m) = (if r \<in> fst ` set m then map fst m else map fst m @ [r])"
proof (cases "map_of m r")
  case None
  then have "r \<notin> fst ` set m" by (simp add: map_of_eq_None_iff)
  with None show ?thesis by (simp add: push_task_def map_get_def keys_map_set keys_set_map_set)
next
  case (Some ts)
  then have "r \<in> fst ` set m" by (metis map_of_eq_None_iff option.distinct(1))
  with Some show ?thesis by (simp add: push_task_def map_get_def keys_map_set)
qed

lemma keys_set_push_task: "fst ` set (push_task t r m) = insert r (fst ` set m)"
proof -
  have "fst ` set (push_task t r m) = set (map fst (push_task t r m))" by simp
  also have "\<dots> = insert r (fst ` set m)" unfolding keys_push_task by auto
  finally show ?thesis .
qed

lemma distinct_push_task: "distinct (map fst m) \<Longrightarrow> distinct (map fst (push_task t r m))"
  unfolding keys_push_task by simp

lemma entries_push_task:
  "entries (push_task t x m) r = (if r = x then entries m r @ [t] else entries m r)"
  by (simp add: entries_def map_of_push_task)

lemma entries_fold_push:
  "entries (fold (push_task t) rs m) r = entries m r @ map (\<lambda>x. t) (filter (\<lambda>x. x = r) rs)"
  by (induction rs arbitrary: m) (auto simp: entries_push_task)

lemma keys_fold_push:
  "fst ` set (fold (push_task t) rs m) = fst ` set m \<union> set rs"
  by (induction rs arbitrary: m) (simp_all add: keys_set_push_task)

lemma distinct_fold_push:
  "distinct (map fst m) \<Longrightarrow> distinct (map fst (fold (push_task t) rs m))"
  by (induction rs arbitrary: m) (simp_all add: distinct_push_task)

lemma entries_fold_tasks:
  "entries (fold (\<lambda>t m. fold (push_task t) (resources t) m) tasks m) r
     = entries m r @ declarers tasks r"
  by (induction tasks arbitrary: m) (auto simp: declarers_def entries_fold_push)

lemma keys_fold_tasks:
  "fst ` set (fold (\<lambda>t m. fold (push_task t) (resources t) m) tasks m)
     = fst ` set m \<union> (\<Union>t\<in>set tasks. set (resources t))"
  by (induction tasks arbitrary: m) (simp_all add: keys_fold_push Un_assoc)

lemma distinct_fold_tasks:
  "distinct (map fst m) \<Longrightarrow>
   distinct (map fst (fold (\<lambda>t m. fold (push_task t) (resources t) m) tasks m))"
  by (induction tasks arbitrary: m) (simp_all add: distinct_fold_push)

lemma declarers_empty_iff: "declarers tasks r = [] \<longleftrightarrow> (\<forall>t\<in>set tasks. r \<notin> set (resources t))"
  by (induction tasks) (auto simp: declarers_def filter_empty_conv)

lemma group_tasks_entry:
  "(r, ts) \<in> set (group_tasks tasks) \<longleftrightarrow> ts = declarers tasks r \<and> ts \<noteq> []"
proof -
  have d: "distinct (map fst (group_tasks tasks))"
    unfolding group_tasks_def by (rule distinct_fold_tasks) simp
  have "entries [] r = []" by (simp add: entries_def)
  then have e: "entries (group_tasks tasks) r = declarers tasks r"
    unfolding group_tasks_def by (simp add: entries_fold_tasks)
  have k: "r \<in> fst ` set (group_tasks tasks) \<longleftrightarrow> declarers tasks r \<noteq> []"
    unfolding group_tasks_def by (simp add: keys_fold_tasks declarers_empty_iff)
  have "(r, ts) \<in> set (group_tasks tasks) \<longleftrightarrow> map_of (group_tasks tasks) r = Some ts"
    using d by simp
  also have "\<dots> \<longleftrightarrow> ts = declarers tasks r \<and> ts \<noteq> []"
  proof (cases "map_of (group_tasks tasks) r")
    case None
    then have "r \<notin> fst ` set (group_tasks tasks)" by (simp add: map_of_eq_None_iff)
    with k None show ?thesis by auto
  next
    case (Some us)
    then have "r \<in> fst ` set (group_tasks tasks)"
      by (metis map_of_eq_None_iff option.distinct(1))
    with k have "declarers tasks r \<noteq> []" by simp
    moreover from Some e have "us = declarers tasks r" by (simp add: entries_def)
    ultimately show ?thesis using Some by auto
  qed
  finally show ?thesis .
qed

lemma distinct_reported: "distinct (map fst (reported_conflicts tasks))"
proof -
  have "distinct (map fst (group_tasks tasks))"
    unfolding group_tasks_def by (rule distinct_fold_tasks) simp
  then show ?thesis unfolding reported_conflicts_def by (rule distinct_map_filter)
qed

lemma reported_entry:
  "(r, ts) \<in> set (reported_conflicts tasks) \<longleftrightarrow> ts = declarers tasks r \<and> 2 \<le> length ts"
proof -
  have "(r, ts) \<in> set (reported_conflicts tasks)
      \<longleftrightarrow> (ts = declarers tasks r \<and> ts \<noteq> []) \<and> length ts \<noteq> 1"
    by (simp add: reported_conflicts_def group_tasks_entry)
  also have "\<dots> \<longleftrightarrow> ts = declarers tasks r \<and> 2 \<le> length ts"
    by (cases ts) (auto simp: Suc_le_eq)
  finally show ?thesis .
qed

lemma filter_eq_distinct: "distinct xs \<Longrightarrow> filter (\<lambda>x. x = r) xs = (if r \<in> set xs then [r] else [])"
  by (induction xs) auto

lemma declarers_distinct:
  "\<forall>t\<in>set tasks. distinct (resources t) \<Longrightarrow> declarers tasks r = claimants tasks r"
  by (induction tasks) (auto simp: declarers_def claimants_def filter_eq_distinct)

lemma report_entry_step:
  "report_entry entry (b, state) =
     (if length (snd entry) = 1 then (b, state)
      else (True, state\<lparr>output_calls := output_calls state @ [conflict_line entry]\<rparr>))"
  by (cases entry) (simp add: report_entry_def conflict_line_def call_output_def)

lemma fold_report_entry:
  "fold report_entry m (b, state) =
     (b \<or> filter (\<lambda>entry. length (snd entry) \<noteq> 1) m \<noteq> [],
      state\<lparr>output_calls := output_calls state
        @ map conflict_line (filter (\<lambda>entry. length (snd entry) \<noteq> 1) m)\<rparr>)"
proof (induction m arbitrary: b state)
  case Nil
  show ?case by simp
next
  case (Cons entry m)
  show ?case by (simp add: report_entry_step Cons.IH)
qed

lemma listConflicts_output:
  "listConflicts config tasks state =
     state\<lparr>output_calls := output_calls state
       @ (if reported_conflicts tasks = [] then [Log ''No resource conflicts found'']
          else map conflict_line (reported_conflicts tasks))\<rparr>"
  by (simp add: listConflicts_def fold_report_entry reported_conflicts_def call_output_def)

lemmas conflict_defs =
  listConflicts_def group_tasks_def push_task_def map_get_def report_entry_def
  reported_conflicts_def conflict_line_def claimants_def call_output_def

subsection \<open>C1: a resource held locally refuses the attempt\<close>

text \<open>
  Claim C1. With locking enabled, when a resource of the task is in \<^verbatim>\<open>state.locks\<close>, \<^verbatim>\<open>acquire\<close>
  returns \<^verbatim>\<open>false\<close>, makes no call to the external client and leaves the set as it is. So
  when \<open>A\<close> and \<open>B\<close> share the resource \<open>r\<close> and the attempt of \<open>A\<close> has returned \<^verbatim>\<open>true\<close>,
  every attempt of \<open>B\<close> after it, however many (\<open>n\<close> earlier ones), returns \<^verbatim>\<open>false\<close> and
  changes neither the set nor the calls; and the release of \<open>A\<close> (its resources listed once
  each) returns and takes \<open>r\<close> out of the set.
\<close>

theorem acquire_fails_on_local_conflict:
  "(\<not> no_locking config \<and> (\<exists>r\<in>set (resources task). r \<in> set (locks state)) \<longrightarrow>
      acquire ext config state task = (Returned False, snd (acquire ext config state task))
      \<and> ext_calls (snd (acquire ext config state task)) = ext_calls state
      \<and> locks (snd (acquire ext config state task)) = locks state)
   \<and> (\<not> no_locking config \<and> acquire ext config start A = (Returned True, stateA)
        \<and> r \<in> set (resources A) \<and> r \<in> set (resources B) \<longrightarrow>
      (fst (acquire ext config (((\<lambda>s. snd (acquire ext config s B)) ^^ n) stateA) B) = Returned False
           \<and> locks (((\<lambda>s. snd (acquire ext config s B)) ^^ n) stateA) = locks stateA
           \<and> ext_calls (((\<lambda>s. snd (acquire ext config s B)) ^^ n) stateA) = ext_calls stateA
           \<and> (distinct (resources A) \<longrightarrow>
                fst (release ext config (((\<lambda>s. snd (acquire ext config s B)) ^^ n) stateA) A) = Returned JsUndefined
                \<and> r \<notin> set (locks (snd (release ext config (((\<lambda>s. snd (acquire ext config s B)) ^^ n) stateA) A))))))"
proof (intro conjI impI)
  assume h: "\<not> no_locking config \<and> (\<exists>r\<in>set (resources task). r \<in> set (locks state))"
  then have nl: "\<not> no_locking config" and held: "\<exists>r\<in>set (resources task). r \<in> set (locks state)"
    by simp_all
  from acquire_held(1) [OF nl held, where ext = ext]
  show "acquire ext config state task = (Returned False, snd (acquire ext config state task))"
    by (simp add: prod_eq_iff)
  from acquire_held(3) [OF nl held]
  show "ext_calls (snd (acquire ext config state task)) = ext_calls state" .
  from acquire_held(2) [OF nl held]
  show "locks (snd (acquire ext config state task)) = locks state" .
next
  let ?s = "((\<lambda>s. snd (acquire ext config s B)) ^^ n) stateA"
  assume h: "\<not> no_locking config \<and> acquire ext config start A = (Returned True, stateA)
        \<and> r \<in> set (resources A) \<and> r \<in> set (resources B)"
  then have nl: "\<not> no_locking config" and acq: "acquire ext config start A = (Returned True, stateA)"
    and rA: "r \<in> set (resources A)" and rB: "r \<in> set (resources B)" by simp_all
  from acquire_true_holds [OF nl acq] have sub: "set (resources A) \<subseteq> set (locks stateA)" .
  with rA rB have held: "\<exists>r\<in>set (resources B). r \<in> set (locks stateA)" by auto
  from acquire_blocked_repeat [OF nl held, where ext = ext and n = n]
  have same: "locks ?s = locks stateA" and same_ext: "ext_calls ?s = ext_calls stateA" by simp_all
  show "locks ?s = locks stateA" by (rule same)
  show "ext_calls ?s = ext_calls stateA" by (rule same_ext)
  from held same have "\<exists>r\<in>set (resources B). r \<in> set (locks ?s)" by simp
  from acquire_held(1) [OF nl this]
  show "fst (acquire ext config ?s B) = Returned False" .
  {
    assume d: "distinct (resources A)"
    from rA have ne: "resources A \<noteq> []" by auto
    from sub same have sub': "set (resources A) \<subseteq> set (locks ?s)" by simp
    from release_ok(1) [OF nl ne d sub']
    show "fst (release ext config ?s A) = Returned JsUndefined" .
    from release_ok(2) [OF nl ne d sub', where ext = ext] rA
    show "r \<notin> set (locks (snd (release ext config ?s A)))" by simp
  }
qed

text \<open>The same at a concrete input.\<close>

theorem acquire_fails_on_local_conflict_witness:
  "\<not> no_locking locking_config
   \<and> acquire (\<lambda>calls. Granted) locking_config fresh_state task_A
       = (Returned True, (holding [''r1''])\<lparr>ext_calls := [ExternalAcquire [''r1''] 40000]\<rparr>)
   \<and> ''r1'' \<in> set (resources task_A) \<and> ''r1'' \<in> set (resources task_B)
   \<and> ''r1'' \<in> set (locks (holding [''r1'']))
   \<and> acquire (\<lambda>calls. Granted) locking_config (holding [''r1'']) task_B
       = (Returned False, holding [''r1''])
   \<and> fst (acquire (\<lambda>calls. Granted) locking_config
        (((\<lambda>s. snd (acquire (\<lambda>calls. Granted) locking_config s task_B)) ^^ Suc (Suc 0))
           ((holding [''r1''])\<lparr>ext_calls := [ExternalAcquire [''r1''] 40000]\<rparr>)) task_B)
       = Returned False
   \<and> ''r1'' \<notin> set (locks (snd (release (\<lambda>calls. Granted) locking_config
        (((\<lambda>s. snd (acquire (\<lambda>calls. Granted) locking_config s task_B)) ^^ Suc (Suc 0))
           ((holding [''r1''])\<lparr>ext_calls := [ExternalAcquire [''r1''] 40000]\<rparr>)) task_A)))"
proof -
  have h: "\<not> no_locking locking_config
    \<and> acquire (\<lambda>calls. Granted) locking_config fresh_state task_A
         = (Returned True, (holding [''r1''])\<lparr>ext_calls := [ExternalAcquire [''r1''] 40000]\<rparr>)
    \<and> ''r1'' \<in> set (resources task_A) \<and> ''r1'' \<in> set (resources task_B)
    \<and> ''r1'' \<in> set (locks (holding [''r1'']))
    \<and> distinct (resources task_A)
    \<and> (\<exists>r\<in>set (resources task_B). r \<in> set (locks (holding [''r1''])))
    \<and> snd (acquire (\<lambda>calls. Granted) locking_config (holding [''r1'']) task_B) = holding [''r1'']"
    by (simp add: run_defs input_defs)
  from h acquire_fails_on_local_conflict
    [where config = locking_config and ext = "\<lambda>calls. Granted" and task = task_B
       and state = "holding [''r1'']" and A = task_A and B = task_B and r = "''r1''"
       and stateA = "(holding [''r1''])\<lparr>ext_calls := [ExternalAcquire [''r1''] 40000]\<rparr>"
       and n = "Suc (Suc 0)" and start = fresh_state]
  show ?thesis by simp
qed

subsection \<open>C2: the three answers of the external client to an attempt\<close>

text \<open>
  Claim C2. With locking and external locking enabled, for a task with resources none of
  which is in \<^verbatim>\<open>state.locks\<close>, \<^verbatim>\<open>acquire\<close> makes exactly one call to the external client,
  \<^verbatim>\<open>externalAcquire\<close> of all the resources of the task for 40000 ms. When the client grants,
  the attempt returns \<^verbatim>\<open>true\<close> and the set is the old one with every resource of the task
  added; when it answers with a conflict, or rejects with an error, the attempt returns
  \<^verbatim>\<open>false\<close> (it does not throw) and the set is unchanged.
\<close>

theorem acquire_external_outcomes:
  assumes "\<not> no_locking config" and "\<not> no_external_locking config"
    and "resources task \<noteq> []"
    and "\<forall>r\<in>set (resources task). r \<notin> set (locks state)"
  shows "ext_calls (snd (acquire ext config state task))
           = ext_calls state @ [ExternalAcquire (resources task) 40000]
     \<and> (ext (ext_calls state @ [ExternalAcquire (resources task) 40000]) = Granted \<longrightarrow>
          fst (acquire ext config state task) = Returned True
          \<and> set (locks (snd (acquire ext config state task))) = set (locks state) \<union> set (resources task))
     \<and> (ext (ext_calls state @ [ExternalAcquire (resources task) 40000]) = Denied conflict \<longrightarrow>
          fst (acquire ext config state task) = Returned False
          \<and> locks (snd (acquire ext config state task)) = locks state)
     \<and> (ext (ext_calls state @ [ExternalAcquire (resources task) 40000]) = Raised stack \<longrightarrow>
          fst (acquire ext config state task) = Returned False
          \<and> locks (snd (acquire ext config state task)) = locks state)"
proof -
  note eq = acquire_free_external [OF assms, where ext = ext]
  show ?thesis
  proof (cases "ext (ext_calls state @ [ExternalAcquire (resources task) 40000])")
    case Granted
    then show ?thesis
      by (simp add: eq Let_def acquire_locally_result set_fold_set_add)
  next
    case (Denied l)
    then show ?thesis by (simp add: eq Let_def)
  next
    case (Raised e)
    then show ?thesis by (simp add: eq Let_def)
  qed
qed

text \<open>The same at a concrete input.\<close>

theorem acquire_external_outcomes_witness:
  "\<not> no_locking locking_config \<and> \<not> no_external_locking locking_config
   \<and> resources task_A \<noteq> [] \<and> list_all (\<lambda>r. r \<notin> set (locks fresh_state)) (resources task_A)
   \<and> ext_calls (snd (acquire (\<lambda>calls. Granted) locking_config fresh_state task_A))
        = [ExternalAcquire [''r1''] 40000]
   \<and> fst (acquire (\<lambda>calls. Granted) locking_config fresh_state task_A) = Returned True
   \<and> set (locks (snd (acquire (\<lambda>calls. Granted) locking_config fresh_state task_A))) = {''r1''}
   \<and> ext_calls (snd (acquire (\<lambda>calls. Denied conflict_r1) locking_config fresh_state task_A))
        = [ExternalAcquire [''r1''] 40000]
   \<and> fst (acquire (\<lambda>calls. Denied conflict_r1) locking_config fresh_state task_A) = Returned False
   \<and> locks (snd (acquire (\<lambda>calls. Denied conflict_r1) locking_config fresh_state task_A)) = []
   \<and> ext_calls (snd (acquire (\<lambda>calls. Raised ''ECONNREFUSED'') locking_config fresh_state task_A))
        = [ExternalAcquire [''r1''] 40000]
   \<and> fst (acquire (\<lambda>calls. Raised ''ECONNREFUSED'') locking_config fresh_state task_A)
        = Returned False
   \<and> locks (snd (acquire (\<lambda>calls. Raised ''ECONNREFUSED'') locking_config fresh_state task_A)) = []"
proof -
  have 1: "\<not> no_locking locking_config" and 2: "\<not> no_external_locking locking_config"
    and 3: "resources task_A \<noteq> []"
    and 4: "\<forall>r\<in>set (resources task_A). r \<notin> set (locks fresh_state)"
    by (simp_all add: input_defs)
  note granted = acquire_external_outcomes [OF 1 2 3 4, where ext = "\<lambda>calls. Granted"]
  note denied = acquire_external_outcomes [OF 1 2 3 4, where ext = "\<lambda>calls. Denied conflict_r1"
    and conflict = conflict_r1]
  note raised = acquire_external_outcomes [OF 1 2 3 4, where ext = "\<lambda>calls. Raised ''ECONNREFUSED''"
    and stack = "''ECONNREFUSED''"]
  have v: "resources task_A = [''r1'']" "locks fresh_state = []" "ext_calls fresh_state = []"
    by (simp_all add: input_defs)
  from 1 2 granted denied raised show ?thesis by (simp add: v)
qed

subsection \<open>C3: release of a resource that is not held\<close>

text \<open>
  Claim C3, as the code has it. With locking enabled, \<^verbatim>\<open>release\<close> throws when some resource
  of the task is not in \<^verbatim>\<open>state.locks\<close>. The resources are removed one after the other, in
  the order of the list, and the assertion is made on each just before its removal: when
  \<^verbatim>\<open>release\<close> throws, it has stopped at a resource that is not in the set or stands earlier
  in the list, and the resources listed before that one have been removed from the set
  (and no other); when it returns, every resource of the task was in the set and has been
  removed.
\<close>

theorem release_removes_in_order:
  assumes "\<not> no_locking config"
  shows "((\<exists>r\<in>set (resources task). r \<notin> set (locks state)) \<longrightarrow>
            (\<exists>e. fst (release ext config state task) = Threw e))
     \<and> (fst (release ext config state task) = Threw e \<longrightarrow>
          (\<exists>pre r post. resources task = pre @ r # post
             \<and> distinct pre \<and> set pre \<subseteq> set (locks state)
             \<and> (r \<in> set pre \<or> r \<notin> set (locks state))
             \<and> locks (snd (release ext config state task))
                  = filter (\<lambda>x. x \<notin> set pre) (locks state)
             \<and> e = AssertionError (''Trying to release '' @ r @ '' for '' @ task_id task
                  @ '', but not in current locks ''
                  @ join '','' (sort (filter (\<lambda>x. x \<notin> set pre) (locks state))))))
     \<and> (fst (release ext config state task) = Returned v \<longrightarrow>
          set (resources task) \<subseteq> set (locks state)
          \<and> locks (snd (release ext config state task))
               = filter (\<lambda>x. x \<notin> set (resources task)) (locks state)
          \<and> (\<forall>r\<in>set (resources task). r \<notin> set (locks (snd (release ext config state task)))))"
proof (cases "resources task = []")
  case True
  with assms show ?thesis by (simp add: release_def)
next
  case ne: False
  let ?s = "if \<not> no_external_locking config then release_externally ext config state task else state"
  have l: "locks ?s = locks state" by simp
  note rel = release_enabled [OF assms ne, where ext = ext and state = state]
  show ?thesis
  proof (cases "distinct (resources task) \<and> set (resources task) \<subseteq> set (locks ?s)")
    case True
    then have ok: "distinct (resources task)" "set (resources task) \<subseteq> set (locks ?s)"
      "release_locally (task_id task) (resources task) ?s
         = (None, ?s\<lparr>locks := filter (\<lambda>x. x \<notin> set (resources task)) (locks ?s)\<rparr>)"
      using release_locally_ok [of "resources task" ?s "task_id task"] by simp_all
    from ok(3) have f: "fst (release ext config state task) = Returned JsUndefined"
      and s: "locks (snd (release ext config state task))
                = filter (\<lambda>x. x \<notin> set (resources task)) (locks state)"
      by (simp_all add: rel Let_def l)
    from ok(2) f s show ?thesis by (auto simp: l)
  next
    case False
    from release_locally_decomp [OF False] obtain pre r post where
      d: "resources task = pre @ r # post" "distinct pre" "set pre \<subseteq> set (locks ?s)"
         "r \<in> set pre \<or> r \<notin> set (locks ?s)" by blast
    from release_locally_fail [OF d(2,3,4), of "task_id task" post] d(1)
    have rl: "release_locally (task_id task) (resources task) ?s =
             (Some (AssertionError (''Trying to release '' @ r @ '' for '' @ task_id task
                @ '', but not in current locks ''
                @ join '','' (sort (filter (\<lambda>x. x \<notin> set pre) (locks ?s))))),
              ?s\<lparr>locks := filter (\<lambda>x. x \<notin> set pre) (locks ?s)\<rparr>)" by simp
    from rl have f: "fst (release ext config state task) =
        Threw (AssertionError (''Trying to release '' @ r @ '' for '' @ task_id task
                @ '', but not in current locks ''
                @ join '','' (sort (filter (\<lambda>x. x \<notin> set pre) (locks state)))))"
      and s: "locks (snd (release ext config state task)) = filter (\<lambda>x. x \<notin> set pre) (locks state)"
      by (simp_all add: rel Let_def l)
    have 1: "\<exists>e. fst (release ext config state task) = Threw e" using f by simp
    have 2: "fst (release ext config state task) \<noteq> Returned v" using f by simp
    have 3: "fst (release ext config state task) = Threw e \<longrightarrow>
          (\<exists>pre r post. resources task = pre @ r # post
             \<and> distinct pre \<and> set pre \<subseteq> set (locks state)
             \<and> (r \<in> set pre \<or> r \<notin> set (locks state))
             \<and> locks (snd (release ext config state task))
                  = filter (\<lambda>x. x \<notin> set pre) (locks state)
             \<and> e = AssertionError (''Trying to release '' @ r @ '' for '' @ task_id task
                  @ '', but not in current locks ''
                  @ join '','' (sort (filter (\<lambda>x. x \<notin> set pre) (locks state)))))"
    proof
      assume "fst (release ext config state task) = Threw e"
      with f have "e = AssertionError (''Trying to release '' @ r @ '' for '' @ task_id task
                  @ '', but not in current locks ''
                  @ join '','' (sort (filter (\<lambda>x. x \<notin> set pre) (locks state))))" by simp
      with d s show "\<exists>pre r post. resources task = pre @ r # post
             \<and> distinct pre \<and> set pre \<subseteq> set (locks state)
             \<and> (r \<in> set pre \<or> r \<notin> set (locks state))
             \<and> locks (snd (release ext config state task))
                  = filter (\<lambda>x. x \<notin> set pre) (locks state)
             \<and> e = AssertionError (''Trying to release '' @ r @ '' for '' @ task_id task
                  @ '', but not in current locks ''
                  @ join '','' (sort (filter (\<lambda>x. x \<notin> set pre) (locks state))))"
        unfolding l by blast
    qed
    from 1 2 3 show ?thesis by simp
  qed
qed

text \<open>
  The same at a concrete input.
\<close>

theorem release_removes_in_order_witness:
  "\<not> no_locking locking_config
   \<and> ''r2'' \<in> set (resources task_two) \<and> ''r2'' \<notin> set (locks (holding [''r1'']))
   \<and> (\<exists>e. fst (release (\<lambda>calls. Granted) locking_config (holding [''r1'']) task_two) = Threw e)
   \<and> fst (release (\<lambda>calls. Granted) locking_config (holding [''r1'', ''r2'']) task_two)
        = Returned JsUndefined
   \<and> locks (snd (release (\<lambda>calls. Granted) locking_config (holding [''r1'', ''r2'']) task_two))
        = filter (\<lambda>x. x \<notin> set (resources task_two)) (locks (holding [''r1'', ''r2'']))"
proof -
  have 1: "\<not> no_locking locking_config" by (simp add: input_defs)
  have 2: "\<exists>r\<in>set (resources task_two). r \<notin> set (locks (holding [''r1'']))"
    and 3: "''r2'' \<in> set (resources task_two) \<and> ''r2'' \<notin> set (locks (holding [''r1'']))"
    by (simp_all add: input_defs)
  have 4: "fst (release (\<lambda>calls. Granted) locking_config (holding [''r1'', ''r2'']) task_two)
        = Returned JsUndefined"
    by (simp add: run_defs input_defs)
  from 1 2 3 4
    release_removes_in_order [OF 1, where ext = "\<lambda>calls. Granted" and state = "holding [''r1'']"
      and task = task_two]
    release_removes_in_order [OF 1, where ext = "\<lambda>calls. Granted"
      and state = "holding [''r1'', ''r2'']" and task = task_two and v = JsUndefined]
  show ?thesis by simp
qed

text \<open>
  The removal is not all or nothing: \<^verbatim>\<open>r1\<close> is held and \<^verbatim>\<open>r2\<close> is not, \<^verbatim>\<open>release\<close> of both
  throws at \<^verbatim>\<open>r2\<close>, and \<^verbatim>\<open>r1\<close> has been removed.
\<close>

theorem release_not_all_or_nothing:
  "\<not> no_locking locking_config
   \<and> fst (release (\<lambda>calls. Granted) locking_config (holding [''r1'']) task_two)
       = Threw (AssertionError ''Trying to release r2 for T, but not in current locks '')
   \<and> ''r1'' \<in> set (resources task_two)
   \<and> ''r1'' \<in> set (locks (holding [''r1'']))
   \<and> ''r1'' \<notin> set (locks (snd (release (\<lambda>calls. Granted) locking_config (holding [''r1''])
        task_two)))"
  by (simp add: run_defs input_defs)

subsection \<open>C4: the external step of release never stops the local one\<close>

text \<open>
  Claim C4, as the code has it. With locking and external locking enabled, for a task whose
  resources are listed once each and are all in \<^verbatim>\<open>state.locks\<close>, whatever the external
  client answers to \<^verbatim>\<open>externalRelease\<close>, \<^verbatim>\<open>release\<close> returns without throwing and every
  resource of the task is removed from the set. A rejection is always given to
  \<^verbatim>\<open>output.log\<close>; a conflict is given to \<^verbatim>\<open>output.logVerbose\<close> only when
  \<^verbatim>\<open>locking_verbose\<close> or \<^verbatim>\<open>log_file\<close> is set.
\<close>

theorem release_swallows_external_failure:
  assumes "\<not> no_locking config" and "\<not> no_external_locking config"
    and "resources task \<noteq> []" and "distinct (resources task)"
    and "set (resources task) \<subseteq> set (locks state)"
  shows "fst (release ext config state task) = Returned JsUndefined
     \<and> locks (snd (release ext config state task))
          = filter (\<lambda>x. x \<notin> set (resources task)) (locks state)
     \<and> (\<forall>r\<in>set (resources task). r \<notin> set (locks (snd (release ext config state task))))
     \<and> ext_calls (snd (release ext config state task))
          = ext_calls state @ [ExternalRelease (resources task)]
     \<and> output_calls (snd (release ext config state task))
          = output_calls state
            @ (case ext (ext_calls state @ [ExternalRelease (resources task)]) of
                 Granted \<Rightarrow> []
               | Denied response \<Rightarrow>
                   if verbose config
                   then [LogVerbose (''[exlocking] '' @ task_id task
                          @ '': Failed to release '' @ resource response
                          @ '', held by '' @ optional_string (client response)
                          @ '' expires in '' @ number_string (expireIn response) @ '' ms'')]
                   else []
               | Raised stack \<Rightarrow>
                   [Log (''[exlocking] Failed to release for '' @ task_id task @ '': '' @ stack)])
            @ (if verbose config
               then [LogVerbose (''[locking] '' @ task_id task @ '': Released ''
                      @ join '','' (resources task))]
               else [])"
proof -
  let ?s = "release_externally ext config state task"
  have sub: "set (resources task) \<subseteq> set (locks ?s)" using assms(5) by simp
  from release_locally_ok [OF assms(4) sub, of "task_id task"]
  have rl: "release_locally (task_id task) (resources task) ?s
      = (None, ?s\<lparr>locks := filter (\<lambda>x. x \<notin> set (resources task)) (locks state)\<rparr>)"
    by simp
  have rel: "release ext config state task =
      (Returned JsUndefined,
       if verbose config
       then call_output (LogVerbose (''[locking] '' @ task_id task @ '': Released ''
              @ join '','' (resources task)))
              (?s\<lparr>locks := filter (\<lambda>x. x \<notin> set (resources task)) (locks state)\<rparr>)
       else ?s\<lparr>locks := filter (\<lambda>x. x \<notin> set (resources task)) (locks state)\<rparr>)"
    using assms(2) by (simp add: release_enabled [OF assms(1,3)] rl)
  have out: "output_calls ?s = output_calls state
            @ (case ext (ext_calls state @ [ExternalRelease (resources task)]) of
                 Granted \<Rightarrow> []
               | Denied response \<Rightarrow>
                   if verbose config
                   then [LogVerbose (''[exlocking] '' @ task_id task
                          @ '': Failed to release '' @ resource response
                          @ '', held by '' @ optional_string (client response)
                          @ '' expires in '' @ number_string (expireIn response) @ '' ms'')]
                   else []
               | Raised stack \<Rightarrow>
                   [Log (''[exlocking] Failed to release for '' @ task_id task @ '': '' @ stack)])"
    by (simp add: release_externally_def Let_def split: ext_reply.splits)
  show ?thesis by (simp add: rel out)
qed

text \<open>
  The same at a concrete input.
\<close>

theorem release_swallows_external_failure_witness:
  "\<not> no_locking locking_config \<and> \<not> no_external_locking locking_config
   \<and> resources task_A \<noteq> [] \<and> distinct (resources task_A)
   \<and> set (resources task_A) \<subseteq> set (locks (holding [''r1'']))
   \<and> fst (release (\<lambda>calls. Raised ''ECONNREFUSED'') locking_config (holding [''r1'']) task_A)
        = Returned JsUndefined
   \<and> locks (snd (release (\<lambda>calls. Raised ''ECONNREFUSED'') locking_config (holding [''r1''])
        task_A)) = []
   \<and> output_calls (snd (release (\<lambda>calls. Raised ''ECONNREFUSED'') locking_config
        (holding [''r1'']) task_A)) = [Log ''[exlocking] Failed to release for A: ECONNREFUSED'']
   \<and> fst (release (\<lambda>calls. Denied conflict_r1) locking_config (holding [''r1'']) task_A)
        = Returned JsUndefined
   \<and> locks (snd (release (\<lambda>calls. Denied conflict_r1) locking_config (holding [''r1''])
        task_A)) = []"
proof -
  have 1: "\<not> no_locking locking_config" and 2: "\<not> no_external_locking locking_config"
    and 3: "resources task_A \<noteq> []" and 4: "distinct (resources task_A)"
    and 5: "set (resources task_A) \<subseteq> set (locks (holding [''r1'']))"
    by (simp_all add: input_defs)
  have v: "resources task_A = [''r1'']" "locks (holding [''r1'']) = [''r1'']"
    "output_calls (holding [''r1'']) = []" "task_id task_A = ''A''" "\<not> verbose locking_config"
    by (simp_all add: input_defs verbose_def)
  from 1 2
    release_swallows_external_failure [OF 1 2 3 4 5, where ext = "\<lambda>calls. Raised ''ECONNREFUSED''"]
    release_swallows_external_failure [OF 1 2 3 4 5, where ext = "\<lambda>calls. Denied conflict_r1"]
  show ?thesis by (simp add: v)
qed

text \<open>
  With neither \<^verbatim>\<open>locking_verbose\<close> nor \<^verbatim>\<open>log_file\<close> set, a conflict answered to
  \<^verbatim>\<open>externalRelease\<close> is not logged; and for a task that lists a held resource twice,
  \<^verbatim>\<open>release\<close> throws although every resource of the task is in the set.
\<close>

theorem release_conflict_not_logged:
  "\<not> no_locking locking_config \<and> \<not> no_external_locking locking_config
   \<and> set (resources task_A) \<subseteq> set (locks (holding [''r1'']))
   \<and> output_calls (holding [''r1'']) = []
   \<and> output_calls (snd (release (\<lambda>calls. Denied conflict_r1) locking_config (holding [''r1''])
        task_A)) = []
   \<and> set (resources task_twice) \<subseteq> set (locks (holding [''r1'']))
   \<and> fst (release (\<lambda>calls. Denied conflict_r1) locking_config (holding [''r1'']) task_twice)
       = Threw (AssertionError ''Trying to release r1 for D, but not in current locks '')"
  by (simp add: run_defs input_defs)

subsection \<open>C5: the sleeps of acquireEventually\<close>

text \<open>
  Claim C5. Sleep number \<open>j\<close> of a call of \<^verbatim>\<open>acquireEventually\<close> (counted from 1) lasts
  \<open>min 10000 (50 * 2 ^ (j - 1))\<close> ms: after \<open>k\<close> attempts that returned \<^verbatim>\<open>false\<close> the call has
  slept 50, 100, 200, ... in that order, never less than the time before and never more
  than 10000, and the next sleep would last \<open>min 10000 (50 * 2 ^ k)\<close>. When the call returns,
  it returns \<^verbatim>\<open>true\<close>; with locking enabled it returns exactly when, after some number of
  attempts that returned \<^verbatim>\<open>false\<close>, an attempt returns \<^verbatim>\<open>true\<close>. With locking disabled it
  returns \<^verbatim>\<open>true\<close> before the loop.
\<close>

theorem acquireEventually_backoff:
  "(acquireEventually ext others config state task = Some (v, waits, final) \<longrightarrow>
      v = Returned True \<and> waits = map (\<lambda>i. min 10000 (50 * 2 ^ i)) [0..<length waits])
   \<and> (after_failures ext others config task k (50, [], log_trying config state task)
         = Some (waitTime, slept, reached) \<longrightarrow>
       slept = map (\<lambda>i. min 10000 (50 * 2 ^ i)) [0..<k]
       \<and> (1 \<le> j \<and> j \<le> k \<longrightarrow> slept ! (j - 1) = min 10000 (50 * 2 ^ (j - 1)))
       \<and> sorted slept \<and> (\<forall>w\<in>set slept. w \<le> 10000)
       \<and> waitTime = min 10000 (50 * 2 ^ k))
   \<and> (\<not> no_locking config \<longrightarrow>
       (\<exists>result. acquireEventually ext others config state task = Some result)
        = (\<exists>k waitTime slept reached.
             after_failures ext others config task k (50, [], log_trying config state task)
               = Some (waitTime, slept, reached)
             \<and> fst (acquire ext config reached task) = Returned True))
   \<and> (no_locking config \<longrightarrow>
       acquireEventually ext others config state task = Some (Returned True, [], state))"
proof (intro conjI impI)
  let ?start = "(50::nat, [] :: nat list, log_trying config state task)"
  show "acquireEventually ext others config state task = Some (Returned True, [], state)"
    if "no_locking config"
    using that by (simp add: acquireEventually_def)
  show "(\<exists>result. acquireEventually ext others config state task = Some result)
        = (\<exists>k waitTime slept reached.
             after_failures ext others config task k ?start = Some (waitTime, slept, reached)
             \<and> fst (acquire ext config reached task) = Returned True)"
    if nl: "\<not> no_locking config"
  proof
    assume "\<exists>result. acquireEventually ext others config state task = Some result"
    with nl obtain result where
      "acquireEventually_loop ext others config task ?start = Some result"
      by (auto simp: acquireEventually_def)
    from loop_sound [OF this] obtain k w ws s where
      "after_failures ext others config task k ?start = Some (w, ws, s)"
      "attempt ext others config task (w, ws, s) = Inr result"
      by (metis prod_cases3)
    then have "after_failures ext others config task k ?start = Some (w, ws, s)
        \<and> fst (acquire ext config s task) = Returned True"
      by (simp add: attempt_Inr)
    then show "\<exists>k waitTime slept reached.
             after_failures ext others config task k ?start = Some (waitTime, slept, reached)
             \<and> fst (acquire ext config reached task) = Returned True"
      by blast
  next
    assume "\<exists>k waitTime slept reached.
             after_failures ext others config task k ?start = Some (waitTime, slept, reached)
             \<and> fst (acquire ext config reached task) = Returned True"
    then obtain k w ws s where
      f: "after_failures ext others config task k ?start = Some (w, ws, s)"
      and a: "fst (acquire ext config s task) = Returned True" by blast
    from a have "attempt ext others config task (w, ws, s)
        = Inr (Returned True, ws, snd (acquire ext config s task))"
      by (simp add: attempt_Inr)
    from loop_complete [OF f this] nl
    show "\<exists>result. acquireEventually ext others config state task = Some result"
      by (simp add: acquireEventually_def)
  qed
  show "v = Returned True" and "waits = map (\<lambda>i. min 10000 (50 * 2 ^ i)) [0..<length waits]"
    if r: "acquireEventually ext others config state task = Some (v, waits, final)"
  proof -
    have "v = Returned True \<and> waits = map (\<lambda>i. min 10000 (50 * 2 ^ i)) [0..<length waits]"
    proof (cases "no_locking config")
      case True
      with r show ?thesis by (simp add: acquireEventually_def)
    next
      case False
      with r have "acquireEventually_loop ext others config task ?start = Some (v, waits, final)"
        by (simp add: acquireEventually_def)
      from loop_sound [OF this] obtain k w ws s where
        f: "after_failures ext others config task k ?start = Some (w, ws, s)"
        and a: "attempt ext others config task (w, ws, s) = Inr (v, waits, final)"
        by (metis prod_cases3)
      from a have v: "v = Returned True" and ws: "waits = ws" by (simp_all add: attempt_Inr)
      from after_failures_waits [OF _ f]
      have "ws = map (\<lambda>i. min 10000 (50 * 2 ^ i)) [0..<k]" by simp
      then have "ws = map (\<lambda>i. min 10000 (50 * 2 ^ i)) [0..<length ws]" by simp
      with v ws show ?thesis by simp
    qed
    then show "v = Returned True"
      and "waits = map (\<lambda>i. min 10000 (50 * 2 ^ i)) [0..<length waits]" by simp_all
  qed
next
  assume f: "after_failures ext others config task k (50, [], log_trying config state task)
         = Some (waitTime, slept, reached)"
  from after_failures_waits [OF _ f]
  have w: "waitTime = min 10000 (50 * 2 ^ k)"
    and s: "slept = map (\<lambda>i. min 10000 (50 * 2 ^ i)) [0..<k]" by simp_all
  show "waitTime = min 10000 (50 * 2 ^ k)" by (rule w)
  show "slept = map (\<lambda>i. min 10000 (50 * 2 ^ i)) [0..<k]" by (rule s)
  show "sorted slept" unfolding s by (rule sorted_backoff)
  show "\<forall>w\<in>set slept. w \<le> 10000" unfolding s by (simp del: upt_Suc)
  show "slept ! (j - 1) = min 10000 (50 * 2 ^ (j - 1))" if "1 \<le> j \<and> j \<le> k"
  proof -
    from that have "j - 1 < k" by arith
    then show ?thesis unfolding s by (simp del: upt_Suc)
  qed
qed

text \<open>
  The same at a concrete input: \<open>A\<close> holds \<^verbatim>\<open>r1\<close> and releases it during the third sleep of
  \<open>B\<close>, whose fourth attempt then succeeds.
\<close>

theorem acquireEventually_backoff_witness:
  "\<not> no_locking quiet_local_config
   \<and> after_failures (\<lambda>calls. Granted) (A_releases_during 2) quiet_local_config task_B 3
        (50, [], log_trying quiet_local_config (holding [''r1'']) task_B)
       = Some (400, [50, 100, 200], fresh_state)
   \<and> fst (acquire (\<lambda>calls. Granted) quiet_local_config fresh_state task_B) = Returned True
   \<and> [50, 100, 200 :: nat] = map (\<lambda>i. min 10000 (50 * 2 ^ i)) [0..<3]
   \<and> sorted [50, 100, 200 :: nat]
   \<and> (\<exists>result. acquireEventually (\<lambda>calls. Granted) (A_releases_during 2) quiet_local_config
         (holding [''r1'']) task_B = Some result)
   \<and> acquireEventually (\<lambda>calls. Granted) (A_releases_during 2) quiet_local_config
         (holding [''r1'']) task_B = Some (Returned True, [50, 100, 200], holding [''r1''])"
proof -
  have 1: "\<not> no_locking quiet_local_config" by (simp add: input_defs)
  have 2: "after_failures (\<lambda>calls. Granted) (A_releases_during 2) quiet_local_config task_B 3
        (50, [], log_trying quiet_local_config (holding [''r1'']) task_B)
       = Some (400, [50, 100, 200], fresh_state)"
    by (simp add: eval_nat_numeral attempt_def log_trying_def run_defs input_defs)
  have 3: "acquire (\<lambda>calls. Granted) quiet_local_config fresh_state task_B
      = (Returned True, holding [''r1''])"
    by (simp add: run_defs input_defs)
  then have 4: "attempt (\<lambda>calls. Granted) (A_releases_during 2) quiet_local_config task_B
      (400, [50, 100, 200], fresh_state) = Inr (Returned True, [50, 100, 200], holding [''r1''])"
    by (simp add: attempt_def)
  from loop_complete [OF 2 4] 1
  have 5: "acquireEventually (\<lambda>calls. Granted) (A_releases_during 2) quiet_local_config
         (holding [''r1'']) task_B = Some (Returned True, [50, 100, 200], holding [''r1''])"
    by (simp add: acquireEventually_def)
  note inst = acquireEventually_backoff [where ext = "\<lambda>calls. Granted"
    and others = "A_releases_during 2" and config = quiet_local_config
    and state = "holding [''r1'']" and task = task_B and k = 3 and waitTime = 400
    and slept = "[50, 100, 200]" and reached = fresh_state and v = "Returned True"
    and waits = "[50, 100, 200]" and final = "holding [''r1'']" and j = 1]
  from inst 2 have "[50, 100, 200 :: nat] = map (\<lambda>i. min 10000 (50 * 2 ^ i)) [0..<3]
      \<and> sorted [50, 100, 200 :: nat]"
    by blast
  then have 6: "[50, 100, 200 :: nat] = map (\<lambda>i. min 10000 (50 * 2 ^ i)) [0..<3]"
    and 7: "sorted [50, 100, 200 :: nat]" by (rule conjunct1, rule conjunct2)
  from 3 have 8: "fst (acquire (\<lambda>calls. Granted) quiet_local_config fresh_state task_B)
      = Returned True" by simp
  from inst 1 2 8 have 9: "\<exists>result. acquireEventually (\<lambda>calls. Granted) (A_releases_during 2)
      quiet_local_config (holding [''r1'']) task_B = Some result"
    by blast
  from 1 2 8 6 7 9 5 show ?thesis by (intro conjI)
qed

subsection \<open>C6: nothing to lock\<close>

text \<open>
  Claim C6. For a task without resources, and for any task when locking is disabled,
  \<^verbatim>\<open>acquire\<close> and \<^verbatim>\<open>acquireEventually\<close> return \<^verbatim>\<open>true\<close> (the latter without sleeping) and
  \<^verbatim>\<open>release\<close> returns without throwing; the set of locks and the calls to the external
  client are as they were.
\<close>

theorem no_resources_or_no_locking:
  assumes "resources task = [] \<or> no_locking config"
  shows "acquire ext config state task = (Returned True, state)
     \<and> (\<exists>state1. acquireEventually ext others config state task = Some (Returned True, [], state1)
           \<and> locks state1 = locks state \<and> ext_calls state1 = ext_calls state)
     \<and> (\<exists>v. release ext config state task = (Returned v, state))"
proof (intro conjI)
  show "acquire ext config state task = (Returned True, state)"
    using assms by (rule acquire_trivial)
  show "\<exists>v. release ext config state task = (Returned v, state)"
    using assms by (auto simp: release_def)
  show "\<exists>state1. acquireEventually ext others config state task = Some (Returned True, [], state1)
           \<and> locks state1 = locks state \<and> ext_calls state1 = ext_calls state"
  proof (cases "no_locking config")
    case True
    then show ?thesis by (simp add: acquireEventually_def)
  next
    case False
    with assms have e: "resources task = []" by simp
    let ?s = "log_trying config state task"
    have "attempt ext others config task (50, [], ?s) = Inr (Returned True, [], ?s)"
      using e by (simp add: attempt_def acquire_trivial)
    then have "acquireEventually_loop ext others config task (50, [], ?s) = Some (Returned True, [], ?s)"
      by (subst acquireEventually_loop.simps) simp
    with False have "acquireEventually ext others config state task = Some (Returned True, [], ?s)"
      by (simp add: acquireEventually_def)
    then show ?thesis by (simp add: log_trying_def)
  qed
qed

text \<open>The same at a concrete input.\<close>

theorem no_resources_or_no_locking_witness:
  "(resources (task_A\<lparr>resources := []\<rparr>) = [] \<or> no_locking locking_config)
   \<and> acquire (\<lambda>calls. Raised ''down'') locking_config (holding [''r1'']) (task_A\<lparr>resources := []\<rparr>)
        = (Returned True, holding [''r1''])
   \<and> (\<exists>state1. acquireEventually (\<lambda>calls. Raised ''down'') (\<lambda>k s. s) locking_config
          (holding [''r1'']) (task_A\<lparr>resources := []\<rparr>) = Some (Returned True, [], state1)
        \<and> locks state1 = [''r1''] \<and> ext_calls state1 = [])
   \<and> (\<exists>v. release (\<lambda>calls. Raised ''down'') locking_config (holding [''r1''])
          (task_A\<lparr>resources := []\<rparr>) = (Returned v, holding [''r1'']))
   \<and> (resources task_A = [] \<or> no_locking (locking_config\<lparr>no_locking := True\<rparr>))
   \<and> acquire (\<lambda>calls. Raised ''down'') (locking_config\<lparr>no_locking := True\<rparr>) (holding [''r1''])
        task_A = (Returned True, holding [''r1''])
   \<and> (\<exists>state1. acquireEventually (\<lambda>calls. Raised ''down'') (\<lambda>k s. s)
          (locking_config\<lparr>no_locking := True\<rparr>) (holding [''r1'']) task_A
            = Some (Returned True, [], state1)
        \<and> locks state1 = [''r1''] \<and> ext_calls state1 = [])
   \<and> (\<exists>v. release (\<lambda>calls. Raised ''down'') (locking_config\<lparr>no_locking := True\<rparr>)
          (holding [''r1'']) task_A = (Returned v, holding [''r1'']))"
proof -
  have 1: "resources (task_A\<lparr>resources := []\<rparr>) = [] \<or> no_locking locking_config"
    and 2: "resources task_A = [] \<or> no_locking (locking_config\<lparr>no_locking := True\<rparr>)"
    by simp_all
  have v: "locks (holding [''r1'']) = [''r1'']" "ext_calls (holding [''r1'']) = []"
    by (simp_all add: input_defs)
  from 1 2
    no_resources_or_no_locking [OF 1, where ext = "\<lambda>calls. Raised ''down''"
      and others = "\<lambda>k s. s" and state = "holding [''r1'']"]
    no_resources_or_no_locking [OF 2, where ext = "\<lambda>calls. Raised ''down''"
      and others = "\<lambda>k s. s" and state = "holding [''r1'']"]
  show ?thesis by (simp add: v)
qed

subsection \<open>C7: shutdown\<close>

text \<open>
  Claim C7. \<^verbatim>\<open>shutdown\<close> throws exactly when \<^verbatim>\<open>state.locks\<close> is not empty, and returns
  exactly when it is empty; either way it has called \<^verbatim>\<open>shutdown\<close> of the external client
  first, and the set is as it was.
\<close>

theorem shutdown_fatal_iff_locks_left:
  "(\<exists>e. fst (shutdown config state) = Threw e) = (locks state \<noteq> [])
   \<and> (fst (shutdown config state) = Returned ()) = (locks state = [])
   \<and> ext_calls (snd (shutdown config state)) = ext_calls state @ [ExtShutdown]
   \<and> locks (snd (shutdown config state)) = locks state"
  by (simp add: shutdown_def Let_def)

text \<open>The same at a concrete input.\<close>

theorem shutdown_fatal_iff_locks_left_witness:
  "fst (shutdown locking_config (holding [''r1''])) =
     Threw (AssertionError ''Still got some locks on shutdown: r1'')
   \<and> locks (holding [''r1'']) \<noteq> []
   \<and> fst (shutdown locking_config fresh_state) = Returned ()
   \<and> locks fresh_state = []
   \<and> ext_calls (snd (shutdown locking_config fresh_state)) = [ExtShutdown]"
proof -
  have v: "locks (holding [''r1'']) = [''r1'']" "locks fresh_state = []" "ext_calls fresh_state = []"
    by (simp_all add: input_defs)
  have m: "fst (shutdown locking_config (holding [''r1''])) =
     Threw (AssertionError ''Still got some locks on shutdown: r1'')"
    by (simp add: shutdown_def Let_def v call_external_def)
  from m shutdown_fatal_iff_locks_left [of locking_config fresh_state]
    shutdown_fatal_iff_locks_left [of locking_config "holding [''r1'']"]
  show ?thesis by (simp add: v)
qed

subsection \<open>C8: validation of resource names\<close>

text \<open>
  Claim C8. \<^verbatim>\<open>annotateTaskResources\<close> throws exactly when locking is not disabled and some
  resource name of the task is not of the syntax \<^verbatim>\<open>[A-Za-z0-9_-]+\<close>; the error then names the
  task and the first such name, and the messages for two different names of one task are
  different. With locking disabled it returns, and it never changes the state.
\<close>

theorem validation_fails_iff_invalid_name:
  "(\<exists>e. fst (annotateTaskResources config task state) = Threw e)
     = (\<not> no_locking config \<and> (\<exists>r\<in>set (resources task). \<not> spec_resource_name r))
   \<and> (\<not> no_locking config \<and> resources task = pre @ r # post
          \<and> (\<forall>x\<in>set pre. spec_resource_name x) \<and> \<not> spec_resource_name r \<longrightarrow>
        fst (annotateTaskResources config task state) =
          Threw (AssertionError (''Invalid resource name in task '' @ task_id task @ '': ''
            @ json_stringify r)))
   \<and> (''Invalid resource name in task '' @ task_id task @ '': '' @ json_stringify r
        = ''Invalid resource name in task '' @ task_id task @ '': '' @ json_stringify other \<longrightarrow>
        r = other)
   \<and> (no_locking config \<longrightarrow> fst (annotateTaskResources config task state) = Returned ())
   \<and> snd (annotateTaskResources config task state) = state"
proof (intro conjI impI)
  show "r = other"
    if "''Invalid resource name in task '' @ task_id task @ '': '' @ json_stringify r
        = ''Invalid resource name in task '' @ task_id task @ '': '' @ json_stringify other"
  proof -
    from that have "json_stringify r = json_stringify other" by simp
    then show ?thesis by (rule json_stringify_inj)
  qed
  show "(\<exists>e. fst (annotateTaskResources config task state) = Threw e)
     = (\<not> no_locking config \<and> (\<exists>r\<in>set (resources task). \<not> spec_resource_name r))"
    using check_names_throws_iff [of "task_id task" "resources task"]
    by (simp add: annotateTaskResources_def test_resource_name_iff)
  show "snd (annotateTaskResources config task state) = state"
    by (simp add: annotateTaskResources_def)
  show "fst (annotateTaskResources config task state) = Returned ()" if "no_locking config"
    using that by (simp add: annotateTaskResources_def)
next
  assume h: "\<not> no_locking config \<and> resources task = pre @ r # post
          \<and> (\<forall>x\<in>set pre. spec_resource_name x) \<and> \<not> spec_resource_name r"
  then have "check_names (task_id task) (pre @ r # post) =
     Threw (AssertionError (''Invalid resource name in task '' @ task_id task @ '': '' @ json_stringify r))"
    by (intro check_names_first_invalid) (simp_all add: test_resource_name_iff)
  with h show "fst (annotateTaskResources config task state) =
          Threw (AssertionError (''Invalid resource name in task '' @ task_id task @ '': ''
            @ json_stringify r))"
    by (simp add: annotateTaskResources_def)
qed

text \<open>
  The same at a concrete input, with the message as it is thrown: the name \<^verbatim>\<open>bad name\<close>
  stands in it between quotes.
\<close>

theorem validation_fails_iff_invalid_name_witness:
  "\<not> no_locking locking_config
   \<and> spec_resource_name ''ok-1'' \<and> \<not> spec_resource_name ''bad name''
   \<and> fst (annotateTaskResources locking_config
        \<lparr>task_id = ''T'', resources = [''ok-1'', ''bad name'', ''r3'']\<rparr> fresh_state)
       = Threw (AssertionError
           (''Invalid resource name in task T: '' @ CHR 0x22 # ''bad name'' @ [CHR 0x22]))
   \<and> snd (annotateTaskResources locking_config
        \<lparr>task_id = ''T'', resources = [''ok-1'', ''bad name'', ''r3'']\<rparr> fresh_state) = fresh_state
   \<and> no_locking (locking_config\<lparr>no_locking := True\<rparr>)
   \<and> annotateTaskResources (locking_config\<lparr>no_locking := True\<rparr>)
        \<lparr>task_id = ''T'', resources = [''ok-1'', ''bad name'', ''r3'']\<rparr> fresh_state
       = (Returned (), fresh_state)"
proof -
  have h: "\<not> no_locking locking_config \<and> spec_resource_name ''ok-1''
      \<and> \<not> spec_resource_name ''bad name''"
    by (simp add: input_defs spec_resource_name_def spec_name_chars_def)
  have d: "resources \<lparr>task_id = ''T'', resources = [''ok-1'', ''bad name'', ''r3'']\<rparr>
      = [''ok-1''] @ ''bad name'' # [''r3'']"
    by simp
  from h d validation_fails_iff_invalid_name
    [where config = locking_config and state = fresh_state and pre = "[''ok-1'']"
       and r = "''bad name''" and post = "[''r3'']"
       and task = "\<lparr>task_id = ''T'', resources = [''ok-1'', ''bad name'', ''r3'']\<rparr>"]
    validation_fails_iff_invalid_name
    [where config = "locking_config\<lparr>no_locking := True\<rparr>" and state = fresh_state
       and task = "\<lparr>task_id = ''T'', resources = [''ok-1'', ''bad name'', ''r3'']\<rparr>"]
  show ?thesis by (simp add: prod_eq_iff json_stringify_bad_name)
qed

subsection \<open>C9: the conflicts that listConflicts reports\<close>

text \<open>
  Claim C9, as the code has it. \<^verbatim>\<open>listConflicts\<close> changes nothing but the output: it writes
  one line for each reported resource, or the line that there are none. A resource is
  reported, once, exactly when the batch declares it at two places or more, a task that
  lists it twice counting twice, and its line names the declaring tasks in order, once for
  each place. When no task lists a resource twice, the reported resources are exactly those
  claimed by more than one task, each with the tasks that claim it.
\<close>

theorem listConflicts_reports:
  "listConflicts config tasks state =
     state\<lparr>output_calls := output_calls state
       @ (if reported_conflicts tasks = [] then [Log ''No resource conflicts found'']
          else map conflict_line (reported_conflicts tasks))\<rparr>
   \<and> locks (listConflicts config tasks state) = locks state
   \<and> ext_calls (listConflicts config tasks state) = ext_calls state
   \<and> distinct (map fst (reported_conflicts tasks))
   \<and> ((r, ts) \<in> set (reported_conflicts tasks) \<longleftrightarrow> ts = declarers tasks r \<and> 2 \<le> length ts)
   \<and> ((\<forall>t\<in>set tasks. distinct (resources t)) \<longrightarrow>
        ((r, ts) \<in> set (reported_conflicts tasks) \<longleftrightarrow> ts = claimants tasks r \<and> 2 \<le> length ts))"
proof (intro conjI impI)
  show "listConflicts config tasks state =
     state\<lparr>output_calls := output_calls state
       @ (if reported_conflicts tasks = [] then [Log ''No resource conflicts found'']
          else map conflict_line (reported_conflicts tasks))\<rparr>"
    by (rule listConflicts_output)
  show "locks (listConflicts config tasks state) = locks state"
    and "ext_calls (listConflicts config tasks state) = ext_calls state"
    by (simp_all add: listConflicts_output)
  show "distinct (map fst (reported_conflicts tasks))" by (rule distinct_reported)
  show "(r, ts) \<in> set (reported_conflicts tasks) \<longleftrightarrow> ts = declarers tasks r \<and> 2 \<le> length ts"
    by (rule reported_entry)
  show "(r, ts) \<in> set (reported_conflicts tasks) \<longleftrightarrow> ts = claimants tasks r \<and> 2 \<le> length ts"
    if "\<forall>t\<in>set tasks. distinct (resources t)"
    using declarers_distinct [OF that, of r] by (simp add: reported_entry)
qed

text \<open>
  The same for the tasks \<open>A\<close> and \<open>B\<close> on \<^verbatim>\<open>r1\<close> and \<open>C\<close> on \<^verbatim>\<open>r2\<close>: one line, for \<^verbatim>\<open>r1\<close>,
  naming \<open>A\<close> and \<open>B\<close>.
\<close>

theorem listConflicts_reports_witness:
  "list_all (\<lambda>t. distinct (resources t)) [task_A, task_B, task_C]
   \<and> claimants [task_A, task_B, task_C] ''r1'' = [task_A, task_B]
   \<and> (''r1'', [task_A, task_B]) \<in> set (reported_conflicts [task_A, task_B, task_C])
   \<and> claimants [task_A, task_B, task_C] ''r2'' = [task_C]
   \<and> (''r2'', [task_C]) \<notin> set (reported_conflicts [task_A, task_B, task_C])
   \<and> output_calls (listConflicts locking_config [task_A, task_B, task_C] fresh_state)
        = [Log ''r1: A B'']
   \<and> locks (listConflicts locking_config [task_A, task_B, task_C] (holding [''r1''])) = [''r1'']"
proof -
  have d: "\<forall>t\<in>set [task_A, task_B, task_C]. distinct (resources t)"
    by (simp add: input_defs)
  have c: "claimants [task_A, task_B, task_C] ''r1'' = [task_A, task_B]"
    "claimants [task_A, task_B, task_C] ''r2'' = [task_C]"
    by (simp_all add: claimants_def input_defs)
  have o: "output_calls (listConflicts locking_config [task_A, task_B, task_C] fresh_state)
        = [Log ''r1: A B'']"
    by (simp add: conflict_defs input_defs)
  have l: "locks (holding [''r1'']) = [''r1'']" by (simp add: input_defs)
  note first = listConflicts_reports [where tasks = "[task_A, task_B, task_C]" and r = "''r1''"
      and ts = "[task_A, task_B]" and config = locking_config and state = "holding [''r1'']"]
  note second = listConflicts_reports [where tasks = "[task_A, task_B, task_C]" and r = "''r2''"
      and ts = "[task_C]" and config = locking_config and state = "holding [''r1'']"]
  from first d have "(''r1'', [task_A, task_B]) \<in> set (reported_conflicts [task_A, task_B, task_C])
      \<longleftrightarrow> [task_A, task_B] = claimants [task_A, task_B, task_C] ''r1''
        \<and> 2 \<le> length [task_A, task_B]"
    by blast
  with c have 1: "(''r1'', [task_A, task_B]) \<in> set (reported_conflicts [task_A, task_B, task_C])"
    by simp
  from second d have "(''r2'', [task_C]) \<in> set (reported_conflicts [task_A, task_B, task_C])
      \<longleftrightarrow> [task_C] = claimants [task_A, task_B, task_C] ''r2'' \<and> 2 \<le> length [task_C]"
    by blast
  then have 2: "(''r2'', [task_C]) \<notin> set (reported_conflicts [task_A, task_B, task_C])"
    by simp
  from first have "locks (listConflicts locking_config [task_A, task_B, task_C] (holding [''r1'']))
      = locks (holding [''r1''])"
    by blast
  with l have 3: "locks (listConflicts locking_config [task_A, task_B, task_C] (holding [''r1'']))
      = [''r1'']"
    by simp
  from d have 4: "list_all (\<lambda>t. distinct (resources t)) [task_A, task_B, task_C]"
    by (simp add: list_all_iff)
  from 4 c(1) 1 c(2) 2 o 3 show ?thesis by (intro conjI)
qed

text \<open>
  A resource that one task alone claims, but lists twice, is reported.
\<close>

theorem listConflicts_reports_repeated_name:
  "claimants [task_twice] ''r1'' = [task_twice]
   \<and> (''r1'', [task_twice, task_twice]) \<in> set (reported_conflicts [task_twice])
   \<and> output_calls (listConflicts locking_config [task_twice] fresh_state) = [Log ''r1: D D'']"
  by (simp add: conflict_defs input_defs)

subsection \<open>C10: a resource listed twice\<close>

text \<open>
  Claim C10. With locking enabled, for a task that lists some resource twice, none of its
  resources being in \<^verbatim>\<open>state.locks\<close> and the external client disabled or granting,
  \<^verbatim>\<open>acquire\<close> returns \<^verbatim>\<open>true\<close> and the set holds each resource of the task once; the
  \<^verbatim>\<open>release\<close> that follows throws at the first place of the list whose name stands earlier
  in the list, that is at the second occurrence of a repeated name.
\<close>

theorem repeated_name_breaks_release:
  assumes "\<not> no_locking config" and "\<not> distinct (resources task)"
    and "\<forall>r\<in>set (resources task). r \<notin> set (locks state)"
    and "no_external_locking config
         \<or> ext (ext_calls state @ [ExternalAcquire (resources task) 40000]) = Granted"
  shows "fst (acquire ext config state task) = Returned True
     \<and> set (locks (snd (acquire ext config state task))) = set (locks state) \<union> set (resources task)
     \<and> (distinct (locks state) \<longrightarrow> distinct (locks (snd (acquire ext config state task))))
     \<and> (\<exists>pre r post. resources task = pre @ r # post \<and> distinct pre \<and> r \<in> set pre
          \<and> fst (release ext config (snd (acquire ext config state task)) task) =
               Threw (AssertionError (''Trying to release '' @ r @ '' for '' @ task_id task
                 @ '', but not in current locks ''
                 @ join '','' (sort (filter (\<lambda>x. x \<notin> set pre)
                     (locks (snd (acquire ext config state task))))))))"
proof -
  let ?s = "snd (acquire ext config state task)"
  from assms(2) have ne: "resources task \<noteq> []" by auto
  note acq = acquire_succeeds [where ext = ext, OF assms(1) ne assms(3,4)]
  have held: "set (locks ?s) = set (locks state) \<union> set (resources task)"
    by (simp add: acq(2) set_fold_set_add)
  have dist: "distinct (locks state) \<longrightarrow> distinct (locks ?s)"
    by (simp add: acq(2) distinct_fold_set_add)
  from assms(2) obtain pre r post where
    d: "r \<in> set pre" "distinct pre" "resources task = pre @ r # post"
    unfolding not_distinct_conv_prefix by blast
  let ?r = "if \<not> no_external_locking config then release_externally ext config ?s task else ?s"
  have l: "locks ?r = locks ?s" by simp
  from d(3) held have sub: "set pre \<subseteq> set (locks ?r)" by (auto simp: l)
  from d(1) have or: "r \<in> set pre \<or> r \<notin> set (locks ?r)" by simp
  from release_locally_fail [OF d(2) sub or, of "task_id task" post] d(3)
  have "fst (release ext config ?s task) =
      Threw (AssertionError (''Trying to release '' @ r @ '' for '' @ task_id task
        @ '', but not in current locks ''
        @ join '','' (sort (filter (\<lambda>x. x \<notin> set pre) (locks ?s)))))"
    by (simp add: release_enabled [OF assms(1) ne] Let_def l)
  with d have "\<exists>pre r post. resources task = pre @ r # post \<and> distinct pre \<and> r \<in> set pre
          \<and> fst (release ext config ?s task) =
               Threw (AssertionError (''Trying to release '' @ r @ '' for '' @ task_id task
                 @ '', but not in current locks ''
                 @ join '','' (sort (filter (\<lambda>x. x \<notin> set pre) (locks ?s)))))"
    by blast
  with acq(1) held dist show ?thesis by simp
qed

text \<open>
  The same at a concrete input.
\<close>

theorem repeated_name_breaks_release_witness:
  "\<not> no_locking locking_config \<and> \<not> distinct (resources task_twice)
   \<and> list_all (\<lambda>r. r \<notin> set (locks fresh_state)) (resources task_twice)
   \<and> fst (acquire (\<lambda>calls. Granted) locking_config fresh_state task_twice) = Returned True
   \<and> set (locks (snd (acquire (\<lambda>calls. Granted) locking_config fresh_state task_twice))) = {''r1''}
   \<and> distinct (locks (snd (acquire (\<lambda>calls. Granted) locking_config fresh_state task_twice)))
   \<and> (\<exists>pre r post. resources task_twice = pre @ r # post \<and> distinct pre \<and> r \<in> set pre
        \<and> fst (release (\<lambda>calls. Granted) locking_config
                 (snd (acquire (\<lambda>calls. Granted) locking_config fresh_state task_twice)) task_twice) =
             Threw (AssertionError (''Trying to release '' @ r @ '' for '' @ task_id task_twice
               @ '', but not in current locks ''
               @ join '','' (sort (filter (\<lambda>x. x \<notin> set pre)
                   (locks (snd (acquire (\<lambda>calls. Granted) locking_config fresh_state
                      task_twice))))))))"
proof -
  have 1: "\<not> no_locking locking_config" and 2: "\<not> distinct (resources task_twice)"
    and 3: "\<forall>r\<in>set (resources task_twice). r \<notin> set (locks fresh_state)"
    and 4: "no_external_locking locking_config
         \<or> (\<lambda>calls. Granted) (ext_calls fresh_state @ [ExternalAcquire (resources task_twice) 40000])
             = Granted"
    by (simp_all add: input_defs)
  have v: "set (locks fresh_state) \<union> set (resources task_twice) = {''r1''}"
    "distinct (locks fresh_state)"
    by (simp_all add: input_defs)
  from 1 2 3 repeated_name_breaks_release [where ext = "\<lambda>calls. Granted", OF 1 2 3 4]
  show ?thesis by (simp add: v list_all_iff)
qed

end
